theory Spec2Isabelle
  imports Main "HOL-Library.Word"
begin

unbundle bit_operations_syntax

section \<open>Outcomes of a call\<close>

text \<open>
  A call of the C++ code returns, throws one of the two exceptions of digester.hpp, or has
  undefined behaviour. Two kinds of undefined behaviour can be reached from the code of
  the cursor: a read outside the array or byte slice it indexes, and a call of an ntHash
  primitive with a byte that is not a nucleotide (the primitives are defined on
  ACGT/acgt only).
\<close>

datatype ub = OutOfBoundsRead | NonACGTHashed

datatype exn = BadConstructionException | NotRolledTillEndException

datatype ('e, 'a) outcome = Returns 'a | Throws 'e | Undefined ub

definition obind :: "('e, 'a) outcome \<Rightarrow> ('a \<Rightarrow> ('e, 'b) outcome) \<Rightarrow> ('e, 'b) outcome" where
  "obind m f = (case m of Returns x \<Rightarrow> f x | Throws e \<Rightarrow> Throws e | Undefined u \<Rightarrow> Undefined u)"

lemma obind_cong [fundef_cong]:
  "m = m' \<Longrightarrow> (\<And>x. m' = Returns x \<Longrightarrow> f x = f' x) \<Longrightarrow> obind m f = obind m' f'"
  by (cases m') (simp_all add: obind_def)

lemma obind_simps [simp]:
  "obind (Returns x) f = f x" "obind (Throws e) f = Throws e" "obind (Undefined u) f = Undefined u"
  by (simp_all add: obind_def)

section \<open>Enumerations\<close>

text \<open>
  \<open>enum class MinimizedHashType { CANON, FORWARD, REVERSE }\<close> has underlying type
  \<open>int\<close>, and the constructor compares \<open>(int) minimized_h\<close> with 2, so a value of the
  enumeration is modelled by its integer. \<open>BadCharPolicy\<close> is the template parameter of
  the class.
\<close>

type_synonym MinimizedHashType = int

definition CANON :: MinimizedHashType where "CANON = 0"
definition FORWARD :: MinimizedHashType where "FORWARD = 1"
definition REVERSE :: MinimizedHashType where "REVERSE = 2"

datatype BadCharPolicy = WRITEOVER | SKIPOVER

section \<open>The nucleotide table\<close>

definition actg :: "bool list" where
  "actg = [
    False, False, False, False, False, False, False, False, False, False, False, False, False, False, False, False,
    False, False, False, False, False, False, False, False, False, False, False, False, False, False, False, False,
    False, False, False, False, False, False, False, False, False, False, False, False, False, False, False, False,
    False, False, False, False, False, False, False, False, False, False, False, False, False, False, False, False,
    False, True, False, True, False, False, False, True, False, False, False, False, False, False, False, False,
    False, False, False, False, True, False, False, False, False, False, False, False, False, False, False, False,
    False, True, False, True, False, False, False, True, False, False, False, False, False, False, False, False,
    False, False, False, False, True, False, False, False, False, False, False, False, False, False, False, False,
    False, False, False, False, False, False, False, False, False, False, False, False, False, False, False, False,
    False, False, False, False, False, False, False, False, False, False, False, False, False, False, False, False,
    False, False, False, False, False, False, False, False, False, False, False, False, False, False, False, False,
    False, False, False, False, False, False, False, False, False, False, False, False, False, False, False, False,
    False, False, False, False, False, False, False, False, False, False, False, False, False, False, False, False,
    False, False, False, False, False, False, False, False, False, False, False, False, False, False, False, False,
    False, False, False, False, False, False, False, False, False, False, False, False, False, False, False, False,
    False, False, False, False, False, False, False, False, False, False, False, False, False, False, False, False]"

text \<open>
  \<open>bool is_ACTG(char in) { return actg[in]; }\<close>. The subscript of \<open>std::array\<close> takes a
  \<open>size_t\<close>, so the plain \<open>char\<close> is converted to a 64-bit unsigned index. Whether plain
  \<open>char\<close> is signed is fixed by the platform: where it is, a byte of 0x80 and above is a
  negative \<open>char\<close> and converts to \<open>2^64 - 256 + byte\<close>. \<open>char_to_size_t\<close> takes the
  signedness as its first argument.
\<close>

definition char_to_size_t :: "bool \<Rightarrow> char \<Rightarrow> nat" where
  "char_to_size_t char_is_signed c =
     (if char_is_signed \<and> 128 \<le> (of_char c :: nat) then 2 ^ 64 - 256 + of_char c else of_char c)"

definition is_ACTG_lookup :: "bool \<Rightarrow> char \<Rightarrow> ('e, bool) outcome" where
  "is_ACTG_lookup char_is_signed c =
     (let i = char_to_size_t char_is_signed c
      in if i < length actg then Returns (actg ! i) else Undefined OutOfBoundsRead)"

section \<open>The ntHash primitives and the platform\<close>

text \<open>
  \<open>base_forward_hash\<close>, \<open>base_reverse_hash\<close>, \<open>next_forward_hash\<close>, \<open>next_reverse_hash\<close>
  and \<open>nthash::canonical\<close> come from the ntHash library, which is not part of this
  repository: they are a parameter of the model, and so is the platform's choice of a
  signed or unsigned plain \<open>char\<close>. The record \<open>hasher\<close> holds both: what the class is
  compiled against.
\<close>

type_synonym hash = "64 word"

record hasher =
  base_forward_hash :: "string \<Rightarrow> nat \<Rightarrow> hash"
  base_reverse_hash :: "string \<Rightarrow> nat \<Rightarrow> hash"
  next_forward_hash :: "hash \<Rightarrow> nat \<Rightarrow> char \<Rightarrow> char \<Rightarrow> hash"
  next_reverse_hash :: "hash \<Rightarrow> nat \<Rightarrow> char \<Rightarrow> char \<Rightarrow> hash"
  canonical :: "hash \<Rightarrow> hash \<Rightarrow> hash"
  plain_char_signed :: bool

text \<open>
  The bytes the primitives are defined on. A call with another byte is undefined, and
  so is a read of \<open>k\<close> bytes from a buffer that holds fewer.
\<close>

definition nucleotide :: "char \<Rightarrow> bool" where
  "nucleotide c \<longleftrightarrow> c \<in> set ''ACGTacgt''"

section \<open>The cursor\<close>

text \<open>
  The data members of \<open>Digester\<close>. \<open>end_ix\<close> is the member \<open>end\<close> and \<open>ksz\<close> the member
  \<open>k\<close>. \<open>seq\<close> holds the bytes of the slice the pointer refers to. Values of type
  \<open>size_t\<close> are natural numbers: the sums the code forms from positions inside a slice
  (\<open>end + 1\<close>, \<open>ind + 1 + k\<close>, \<open>offset + len\<close>) stay below \<open>2^64\<close> for slices that fit in
  memory; the sum \<open>start + k\<close> of \<open>new_seq\<close>, whose \<open>start\<close> is any \<open>size_t\<close> of the
  caller's, and the two subtractions that can wrap (\<open>len - 1\<close>, \<open>end - 1\<close>) are written
  out modulo \<open>2^64\<close>.
\<close>

record digester =
  seq :: string
  len :: nat
  offset :: nat
  start :: nat
  end_ix :: nat
  chash :: hash
  fhash :: hash
  rhash :: hash
  ksz :: nat
  c_outs :: "char list"
  minimized_h :: MinimizedHashType
  is_valid_hash :: bool

text \<open>
  A call on a cursor throws with the object in some state, which the caller that catches
  the exception can still use: the exception is paired with that state.
\<close>

type_synonym 'a call = "(exn \<times> digester, 'a) outcome"

text \<open>
  The member function \<open>is_ACTG\<close>: the lookup, with the plain \<open>char\<close> of the platform.
\<close>

definition is_ACTG :: "hasher \<Rightarrow> char \<Rightarrow> bool call" where
  "is_ACTG H c = is_ACTG_lookup (plain_char_signed H) c"

definition call_base_forward_hash :: "hasher \<Rightarrow> string \<Rightarrow> nat \<Rightarrow> hash call" where
  "call_base_forward_hash H buf k =
     (if length buf < k then Undefined OutOfBoundsRead
      else if list_all nucleotide (take k buf) then Returns (base_forward_hash H (take k buf) k)
      else Undefined NonACGTHashed)"

definition call_base_reverse_hash :: "hasher \<Rightarrow> string \<Rightarrow> nat \<Rightarrow> hash call" where
  "call_base_reverse_hash H buf k =
     (if length buf < k then Undefined OutOfBoundsRead
      else if list_all nucleotide (take k buf) then Returns (base_reverse_hash H (take k buf) k)
      else Undefined NonACGTHashed)"

definition call_next_forward_hash ::
  "hasher \<Rightarrow> hash \<Rightarrow> nat \<Rightarrow> char \<Rightarrow> char \<Rightarrow> hash call" where
  "call_next_forward_hash H prev k char_out char_in =
     (if nucleotide char_out \<and> nucleotide char_in
      then Returns (next_forward_hash H prev k char_out char_in)
      else Undefined NonACGTHashed)"

definition call_next_reverse_hash ::
  "hasher \<Rightarrow> hash \<Rightarrow> nat \<Rightarrow> char \<Rightarrow> char \<Rightarrow> hash call" where
  "call_next_reverse_hash H prev k char_out char_in =
     (if nucleotide char_out \<and> nucleotide char_in
      then Returns (next_reverse_hash H prev k char_out char_in)
      else Undefined NonACGTHashed)"

text \<open>\<open>n - 1\<close> in \<open>size_t\<close> arithmetic.\<close>

definition size_dec :: "nat \<Rightarrow> nat" where
  "size_dec n = (if n = 0 then 2 ^ 64 - 1 else n - 1)"

text \<open>\<open>seq[i]\<close>: a read of the slice, inside it or not.\<close>

definition read_at :: "string \<Rightarrow> nat \<Rightarrow> char call" where
  "read_at s i = (if i < length s then Returns (s ! i) else Undefined OutOfBoundsRead)"

text \<open>\<open>size_t get_pos() { return offset + start - c_outs.size(); }\<close>, in \<open>size_t\<close> arithmetic.\<close>

definition get_pos :: "digester \<Rightarrow> nat" where
  "get_pos d =
     (if length (c_outs d) \<le> offset d + start d
      then offset d + start d - length (c_outs d)
      else offset d + start d + 2 ^ 64 - length (c_outs d))"

definition get_is_valid_hash :: "digester \<Rightarrow> bool" where
  "get_is_valid_hash d = is_valid_hash d"

definition get_chash :: "digester \<Rightarrow> hash" where "get_chash d = chash d"
definition get_fhash :: "digester \<Rightarrow> hash" where "get_fhash d = fhash d"
definition get_rhash :: "digester \<Rightarrow> hash" where "get_rhash d = rhash d"

text \<open>
  The three lines that every initialisation ends with:
  \<open>fhash = base_forward_hash(buf, k); rhash = base_reverse_hash(buf, k);
  chash = nthash::canonical(fhash, rhash); is_valid_hash = true;\<close>
\<close>

definition set_base_hashes :: "hasher \<Rightarrow> string \<Rightarrow> digester \<Rightarrow> digester call" where
  "set_base_hashes H buf d =
     obind (call_base_forward_hash H buf (ksz d)) (\<lambda>f.
     obind (call_base_reverse_hash H buf (ksz d)) (\<lambda>r.
       Returns (d\<lparr>fhash := f, rhash := r, chash := canonical H f r, is_valid_hash := True\<rparr>)))"

text \<open>
  The two lines of a roll:
  \<open>fhash = next_forward_hash(fhash, k, out, in); rhash = next_reverse_hash(rhash, k, out, in);\<close>
\<close>

definition set_next_hashes :: "hasher \<Rightarrow> char \<Rightarrow> char \<Rightarrow> digester \<Rightarrow> digester call" where
  "set_next_hashes H char_out char_in d =
     obind (call_next_forward_hash H (fhash d) (ksz d) char_out char_in) (\<lambda>f.
     obind (call_next_reverse_hash H (rhash d) (ksz d) char_out char_in) (\<lambda>r.
       Returns (d\<lparr>fhash := f, rhash := r\<rparr>)))"

subsection \<open>init_hash\<close>

text \<open>
  The inner loop of \<open>init_hash_skip_over\<close>, \<open>for (i = start; i < end; i++)
  if (!is_ACTG(seq[i]))\<close>, over the indices \<open>start .. end - 1\<close>: the index of the first
  byte that \<open>is_ACTG\<close> rejects, if there is one.
\<close>

fun first_non_ACTG :: "hasher \<Rightarrow> string \<Rightarrow> nat list \<Rightarrow> nat option call" where
  "first_non_ACTG H s [] = Returns None"
| "first_non_ACTG H s (i # is) =
     obind (read_at s i) (\<lambda>c.
     obind (is_ACTG H c) (\<lambda>b.
       if b then first_non_ACTG H s is else Returns (Some i)))"

text \<open>The \<open>while (end - 1 < len)\<close> loop of \<open>init_hash_skip_over\<close>.\<close>

function init_hash_skip_over_loop :: "hasher \<Rightarrow> digester \<Rightarrow> (bool \<times> digester) call" where
  "init_hash_skip_over_loop H d =
     (if size_dec (end_ix d) < len d then
        (case first_non_ACTG H (seq d) [start d ..< end_ix d] of
           Returns (Some i) \<Rightarrow>
             init_hash_skip_over_loop H (d\<lparr>start := i + 1, end_ix := i + 1 + ksz d\<rparr>)
         | Returns None \<Rightarrow>
             obind (set_base_hashes H (drop (start d) (seq d)) d) (\<lambda>d'. Returns (True, d'))
         | Throws e \<Rightarrow> Throws e
         | Undefined u \<Rightarrow> Undefined u)
      else Returns (False, d\<lparr>is_valid_hash := False\<rparr>))"
  by pat_completeness auto

lemma obind_Returns_iff:
  "obind m f = Returns y \<longleftrightarrow> (\<exists>x. m = Returns x \<and> f x = Returns y)"
  by (cases m) (auto simp: obind_def)

lemma first_non_ACTG_Some:
  "first_non_ACTG H s ixs = Returns (Some i) \<Longrightarrow> i \<in> set ixs"
  by (induction ixs) (auto simp: obind_Returns_iff split: if_splits)

lemma size_dec_less: "size_dec e < n \<Longrightarrow> e \<le> n"
  by (auto simp: size_dec_def split: if_splits)

termination init_hash_skip_over_loop
proof (relation "measure (\<lambda>(H, d). len d - start d)", goal_cases)
  case 1
  show ?case by simp
next
  case (2 H d x i)
  then have "first_non_ACTG H (seq d) [start d ..< end_ix d] = Returns (Some i)"
    by simp
  then have "i \<in> set [start d ..< end_ix d]"
    by (rule first_non_ACTG_Some)
  moreover from 2(1) have "end_ix d \<le> len d"
    by (rule size_dec_less)
  ultimately show ?case by auto
qed

declare init_hash_skip_over_loop.simps [simp del]

definition init_hash_skip_over :: "hasher \<Rightarrow> digester \<Rightarrow> (bool \<times> digester) call" where
  "init_hash_skip_over H d = init_hash_skip_over_loop H (d\<lparr>c_outs := []\<rparr>)"

text \<open>
  Under WRITEOVER every byte \<open>c\<close> is read through \<open>is_ACTG(c) ? c : 'A'\<close>, or through
  \<open>if (!is_ACTG(c)) push_back('A') else push_back(c)\<close>.
\<close>

definition write_over :: "hasher \<Rightarrow> char \<Rightarrow> char call" where
  "write_over H c = obind (is_ACTG H c) (\<lambda>b. Returns (if b then c else CHR ''A''))"

text \<open>
  The loop of \<open>init_hash_write_over\<close> that builds \<open>init_str\<close> from the bytes at
  \<open>start .. end - 1\<close>, writing \<open>A\<close> over every byte that \<open>is_ACTG\<close> rejects.
\<close>

fun build_init_str :: "hasher \<Rightarrow> string \<Rightarrow> nat list \<Rightarrow> string call" where
  "build_init_str H s [] = Returns []"
| "build_init_str H s (i # is) =
     obind (read_at s i) (\<lambda>c.
     obind (write_over H c) (\<lambda>c'.
     obind (build_init_str H s is) (\<lambda>r. Returns (c' # r))))"

text \<open>
  The body of \<open>while (end - 1 < len)\<close> in \<open>init_hash_write_over\<close> returns in its first
  pass, so the loop is a conditional.
\<close>

definition init_hash_write_over :: "hasher \<Rightarrow> digester \<Rightarrow> (bool \<times> digester) call" where
  "init_hash_write_over H d0 =
     (let d = d0\<lparr>c_outs := []\<rparr> in
      if size_dec (end_ix d) < len d then
        obind (build_init_str H (seq d) [start d ..< end_ix d]) (\<lambda>init_str.
        obind (set_base_hashes H init_str d) (\<lambda>d'. Returns (True, d')))
      else Returns (False, d\<lparr>is_valid_hash := False\<rparr>))"

definition init_hash :: "BadCharPolicy \<Rightarrow> hasher \<Rightarrow> digester \<Rightarrow> (bool \<times> digester) call" where
  "init_hash P H d =
     (if P = SKIPOVER then init_hash_skip_over H d else init_hash_write_over H d)"

subsection \<open>roll_one\<close>

definition roll_one_skip_over :: "hasher \<Rightarrow> digester \<Rightarrow> (bool \<times> digester) call" where
  "roll_one_skip_over H d =
     (if \<not> is_valid_hash d then Returns (False, d)
      else if len d \<le> end_ix d then Returns (False, d\<lparr>is_valid_hash := False\<rparr>)
      else if c_outs d \<noteq> [] then
        obind (read_at (seq d) (end_ix d)) (\<lambda>char_in.
        obind (is_ACTG H char_in) (\<lambda>b.
          if b then
            obind (set_next_hashes H (hd (c_outs d)) char_in d) (\<lambda>d1.
              let d2 = d1\<lparr>c_outs := tl (c_outs d1)\<rparr>;
                  d3 = d2\<lparr>end_ix := end_ix d2 + 1\<rparr>
              in Returns (True, d3\<lparr>chash := canonical H (fhash d3) (rhash d3)\<rparr>))
          else
            (let d1 = d\<lparr>c_outs := []\<rparr>;
                 d2 = d1\<lparr>start := end_ix d1 + 1\<rparr>;
                 d3 = d2\<lparr>end_ix := start d2 + ksz d2\<rparr>
             in init_hash SKIPOVER H d3)))
      else
        obind (read_at (seq d) (end_ix d)) (\<lambda>char_in.
        obind (is_ACTG H char_in) (\<lambda>b.
          if b then
            obind (read_at (seq d) (start d)) (\<lambda>char_out.
            obind (set_next_hashes H char_out char_in d) (\<lambda>d1.
              let d2 = d1\<lparr>start := start d1 + 1\<rparr>;
                  d3 = d2\<lparr>end_ix := end_ix d2 + 1\<rparr>
              in Returns (True, d3\<lparr>chash := canonical H (fhash d3) (rhash d3)\<rparr>)))
          else
            (let d1 = d\<lparr>start := end_ix d + 1\<rparr>;
                 d2 = d1\<lparr>end_ix := start d1 + ksz d1\<rparr>
             in init_hash SKIPOVER H d2))))"

definition roll_one_write_over :: "hasher \<Rightarrow> digester \<Rightarrow> (bool \<times> digester) call" where
  "roll_one_write_over H d =
     (if \<not> is_valid_hash d then Returns (False, d)
      else if len d \<le> end_ix d then Returns (False, d\<lparr>is_valid_hash := False\<rparr>)
      else
        obind (read_at (seq d) (end_ix d)) (\<lambda>c.
        obind (write_over H c) (\<lambda>next_char.
          obind
            (if c_outs d \<noteq> [] then
               obind (set_next_hashes H (hd (c_outs d)) next_char d) (\<lambda>d1.
                 let d2 = d1\<lparr>c_outs := tl (c_outs d1)\<rparr>
                 in Returns (d2\<lparr>end_ix := end_ix d2 + 1\<rparr>))
             else
               obind (read_at (seq d) (start d)) (\<lambda>c'.
               obind (write_over H c') (\<lambda>out_char.
               obind (set_next_hashes H out_char next_char d) (\<lambda>d1.
                 let d2 = d1\<lparr>start := start d1 + 1\<rparr>
                 in Returns (d2\<lparr>end_ix := end_ix d2 + 1\<rparr>)))))
            (\<lambda>d3. Returns (True, d3\<lparr>chash := canonical H (fhash d3) (rhash d3)\<rparr>)))))"

definition roll_one :: "BadCharPolicy \<Rightarrow> hasher \<Rightarrow> digester \<Rightarrow> (bool \<times> digester) call" where
  "roll_one P H d =
     (if P = SKIPOVER then roll_one_skip_over H d else roll_one_write_over H d)"

subsection \<open>append_seq\<close>

text \<open>
  The first loop of \<open>append_seq_skip_over\<close>, which walks the old slice from its last
  byte down to \<open>start\<close> and collects nucleotides in \<open>temp_vec\<close>:
  \<open>while (temp_vec.size() + c_outs.size() < k - 1 && ind >= start)\<close>.
  The arguments are the old slice, \<open>start\<close>, \<open>k\<close>, \<open>c_outs.size()\<close>, \<open>temp_vec\<close> and
  \<open>ind\<close>. \<open>k - 1\<close> is unsigned; \<open>k\<close> is at least 4 in every cursor that was constructed.
\<close>

fun tail_loop_skip_over ::
  "hasher \<Rightarrow> string \<Rightarrow> nat \<Rightarrow> nat \<Rightarrow> nat \<Rightarrow> char list \<Rightarrow> nat \<Rightarrow> char list call" where
  "tail_loop_skip_over H s st k n temp_vec ind =
     (if length temp_vec + n < k - 1 \<and> st \<le> ind then
        obind (read_at s ind) (\<lambda>c.
        obind (is_ACTG H c) (\<lambda>b.
          if \<not> b then Returns temp_vec
          else if ind = 0 then Returns (temp_vec @ [c])
          else tail_loop_skip_over H s st k n (temp_vec @ [c]) (ind - 1)))
      else Returns temp_vec)"

fun tail_loop_write_over ::
  "hasher \<Rightarrow> string \<Rightarrow> nat \<Rightarrow> nat \<Rightarrow> nat \<Rightarrow> char list \<Rightarrow> nat \<Rightarrow> char list call" where
  "tail_loop_write_over H s st k n temp_vec ind =
     (if length temp_vec + n < k - 1 \<and> st \<le> ind then
        obind (read_at s ind) (\<lambda>c.
        obind (write_over H c) (\<lambda>c'.
          if ind = 0 then Returns (temp_vec @ [c'])
          else tail_loop_write_over H s st k n (temp_vec @ [c']) (ind - 1)))
      else Returns temp_vec)"

text \<open>
  The second loop, over the new slice \<open>(s, n)\<close>:
  \<open>while (c_outs.size() < k && ind < len)\<close>. Under SKIPOVER a byte that \<open>is_ACTG\<close>
  rejects makes the cursor start over behind it, on the new slice.
\<close>

function fill_loop_skip_over :: "hasher \<Rightarrow> string \<Rightarrow> nat \<Rightarrow> digester \<Rightarrow> nat \<Rightarrow> digester call" where
  "fill_loop_skip_over H s n d ind =
     (if length (c_outs d) < ksz d \<and> ind < n then
        obind (read_at s ind) (\<lambda>c.
        obind (is_ACTG H c) (\<lambda>b.
          if \<not> b then
            (let d1 = d\<lparr>start := ind + 1\<rparr>;
                 d2 = d1\<lparr>end_ix := start d1 + ksz d1\<rparr>;
                 d3 = d2\<lparr>seq := s, len := n\<rparr>;
                 d4 = d3\<lparr>c_outs := []\<rparr>
             in obind (init_hash SKIPOVER H d4) (\<lambda>(b, d5). Returns d5))
          else
            fill_loop_skip_over H s n
              (d\<lparr>c_outs := c_outs d @ [c], start := start d + 1, end_ix := end_ix d + 1\<rparr>)
              (ind + 1)))
      else Returns d)"
  by pat_completeness auto
termination
  by (relation "measure (\<lambda>(H, s, n, d, ind). n - ind)") auto

declare fill_loop_skip_over.simps [simp del]

function fill_loop_write_over :: "hasher \<Rightarrow> string \<Rightarrow> nat \<Rightarrow> digester \<Rightarrow> nat \<Rightarrow> digester call" where
  "fill_loop_write_over H s n d ind =
     (if length (c_outs d) < ksz d \<and> ind < n then
        obind (read_at s ind) (\<lambda>c.
        obind (write_over H c) (\<lambda>c'.
          fill_loop_write_over H s n
            (d\<lparr>c_outs := c_outs d @ [c'], start := start d + 1, end_ix := end_ix d + 1\<rparr>)
            (ind + 1)))
      else Returns d)"
  by pat_completeness auto
termination
  by (relation "measure (\<lambda>(H, s, n, d, ind). n - ind)") auto

declare fill_loop_write_over.simps [simp del]
declare tail_loop_skip_over.simps [simp del]
declare tail_loop_write_over.simps [simp del]

text \<open>
  The statements both versions of \<open>append_seq\<close> share before the first loop:
  \<open>offset += this->len\<close> and the conditional \<open>c_outs.pop_front()\<close>.
\<close>

definition append_seq_prologue :: "digester \<Rightarrow> digester" where
  "append_seq_prologue d =
     (let d1 = d\<lparr>offset := offset d + len d\<rparr>
      in if (start d1 \<noteq> end_ix d1 \<or> length (c_outs d1) = ksz d1) \<and> 0 < length (c_outs d1)
         then d1\<lparr>c_outs := tl (c_outs d1)\<rparr> else d1)"

text \<open>
  The statements both versions share after the second loop: the hashes are initialised
  from the carry if it was filled, and the slice is switched.
\<close>

definition append_seq_epilogue :: "hasher \<Rightarrow> string \<Rightarrow> nat \<Rightarrow> digester \<Rightarrow> digester call" where
  "append_seq_epilogue H s n d =
     obind (if length (c_outs d) = ksz d then set_base_hashes H (c_outs d) d else Returns d)
       (\<lambda>d'. Returns (d'\<lparr>seq := s, len := n\<rparr>))"

definition append_seq_skip_over :: "hasher \<Rightarrow> string \<Rightarrow> nat \<Rightarrow> digester \<Rightarrow> digester call" where
  "append_seq_skip_over H s n d =
     (if end_ix d < len d then Throws (NotRolledTillEndException, d)
      else
        let d1 = append_seq_prologue d;
            ind = size_dec (len d)
        in obind (tail_loop_skip_over H (seq d1) (start d1) (ksz d1) (length (c_outs d1)) [] ind)
             (\<lambda>temp_vec.
                let d2 = d1\<lparr>c_outs := c_outs d1 @ rev temp_vec\<rparr>;
                    d3 = d2\<lparr>start := 0, end_ix := 0\<rparr>
                in obind (fill_loop_skip_over H s n d3 0) (append_seq_epilogue H s n)))"

definition append_seq_write_over :: "hasher \<Rightarrow> string \<Rightarrow> nat \<Rightarrow> digester \<Rightarrow> digester call" where
  "append_seq_write_over H s n d =
     (if end_ix d < len d then Throws (NotRolledTillEndException, d)
      else
        let d1 = append_seq_prologue d;
            ind = size_dec (len d)
        in obind (tail_loop_write_over H (seq d1) (start d1) (ksz d1) (length (c_outs d1)) [] ind)
             (\<lambda>temp_vec.
                let d2 = d1\<lparr>c_outs := c_outs d1 @ rev temp_vec\<rparr>;
                    d3 = d2\<lparr>start := 0, end_ix := 0\<rparr>
                in obind (fill_loop_write_over H s n d3 0) (append_seq_epilogue H s n)))"

text \<open>\<open>append_seq(const char *seq, size_t len)\<close> and \<open>append_seq(const std::string &seq)\<close>.\<close>

definition append_seq :: "BadCharPolicy \<Rightarrow> hasher \<Rightarrow> string \<Rightarrow> nat \<Rightarrow> digester \<Rightarrow> digester call" where
  "append_seq P H s n d =
     (if P = SKIPOVER then append_seq_skip_over H s n d else append_seq_write_over H s n d)"

definition append_seq_string :: "BadCharPolicy \<Rightarrow> hasher \<Rightarrow> string \<Rightarrow> digester \<Rightarrow> digester call" where
  "append_seq_string P H s d = append_seq P H s (length s) d"

subsection \<open>new_seq and the constructor\<close>

text \<open>
  \<open>new_seq(seq, len, start)\<close> assigns \<open>this->end = start + this->k\<close> before it tests
  \<open>start >= len\<close>: the sum is formed for every \<open>start\<close>, in \<open>size_t\<close> arithmetic.
\<close>

definition new_seq :: "BadCharPolicy \<Rightarrow> hasher \<Rightarrow> string \<Rightarrow> nat \<Rightarrow> nat \<Rightarrow> digester \<Rightarrow> digester call" where
  "new_seq P H s n st d =
     (let d1 = d\<lparr>seq := s, len := n, offset := 0, start := st\<rparr>;
          d2 = d1\<lparr>end_ix := (st + ksz d1) mod 2 ^ 64\<rparr>;
          d3 = d2\<lparr>is_valid_hash := False\<rparr>
      in if n \<le> st then Throws (BadConstructionException, d3)
         else obind (init_hash P H d3) (\<lambda>(b, d4). Returns d4))"

definition new_seq_string :: "BadCharPolicy \<Rightarrow> hasher \<Rightarrow> string \<Rightarrow> nat \<Rightarrow> digester \<Rightarrow> digester call" where
  "new_seq_string P H s pos d = new_seq P H s (length s) pos d"

text \<open>
  The constructor. An exception that leaves a constructor leaves no object behind, so
  its outcome carries the exception alone. The member initialiser forms \<open>start + k\<close>;
  where the constructor does not throw, \<open>start\<close> is a position inside the slice.
\<close>

definition Digester ::
  "BadCharPolicy \<Rightarrow> hasher \<Rightarrow> string \<Rightarrow> nat \<Rightarrow> nat \<Rightarrow> nat \<Rightarrow> MinimizedHashType \<Rightarrow> (exn, digester) outcome" where
  "Digester P H s n k st mh =
     (let d = \<lparr>seq = s, len = n, offset = 0, start = st, end_ix = st + k, chash = 0, fhash = 0,
               rhash = 0, ksz = k, c_outs = [], minimized_h = mh, is_valid_hash = False\<rparr>
      in if k < 4 \<or> n \<le> st \<or> 2 < mh then Throws BadConstructionException
         else (case init_hash P H d of
                 Returns (b, d') \<Rightarrow> Returns d'
               | Throws (e, d') \<Rightarrow> Throws e
               | Undefined u \<Rightarrow> Undefined u))"

definition Digester_string ::
  "BadCharPolicy \<Rightarrow> hasher \<Rightarrow> string \<Rightarrow> nat \<Rightarrow> nat \<Rightarrow> MinimizedHashType \<Rightarrow> (exn, digester) outcome" where
  "Digester_string P H s k st mh = Digester P H s (length s) k st mh"

subsection \<open>Rolling to the end\<close>

text \<open>
  What a caller reads from a valid cursor: \<open>get_pos()\<close> and the three hashes.
\<close>

type_synonym emission = "nat \<times> hash \<times> hash \<times> hash"

definition emission :: "digester \<Rightarrow> emission" where
  "emission d = (get_pos d, get_fhash d, get_rhash d, get_chash d)"

lemma set_base_hashes_eq:
  "set_base_hashes H buf d =
     (if length buf < ksz d then Undefined OutOfBoundsRead
      else if list_all nucleotide (take (ksz d) buf)
      then Returns (d\<lparr>fhash := base_forward_hash H (take (ksz d) buf) (ksz d),
                      rhash := base_reverse_hash H (take (ksz d) buf) (ksz d),
                      chash := canonical H (base_forward_hash H (take (ksz d) buf) (ksz d))
                                 (base_reverse_hash H (take (ksz d) buf) (ksz d)),
                      is_valid_hash := True\<rparr>)
      else Undefined NonACGTHashed)"
  by (simp add: set_base_hashes_def call_base_forward_hash_def call_base_reverse_hash_def)

lemma set_next_hashes_eq:
  "set_next_hashes H a b d =
     (if nucleotide a \<and> nucleotide b
      then Returns (d\<lparr>fhash := next_forward_hash H (fhash d) (ksz d) a b,
                      rhash := next_reverse_hash H (rhash d) (ksz d) a b\<rparr>)
      else Undefined NonACGTHashed)"
  by (simp add: set_next_hashes_def call_next_forward_hash_def call_next_reverse_hash_def)

lemma set_base_hashes_fields:
  assumes "set_base_hashes H buf d = Returns d'"
  shows "seq d' = seq d" "len d' = len d" "offset d' = offset d" "start d' = start d"
    "end_ix d' = end_ix d" "ksz d' = ksz d" "c_outs d' = c_outs d"
    "minimized_h d' = minimized_h d" "is_valid_hash d'"
  using assms by (auto simp: set_base_hashes_eq split: if_splits)

lemma init_hash_skip_over_loop_fields:
  assumes "init_hash_skip_over_loop H d = Returns (b, d')"
  shows "seq d' = seq d \<and> len d' = len d \<and> offset d' = offset d \<and> ksz d' = ksz d
    \<and> c_outs d' = c_outs d \<and> minimized_h d' = minimized_h d \<and> is_valid_hash d' = b
    \<and> start d \<le> start d' \<and> (b \<longrightarrow> end_ix d' \<le> len d')
    \<and> (end_ix d = start d + ksz d \<longrightarrow> end_ix d' = start d' + ksz d')"
  using assms
proof (induction H d rule: init_hash_skip_over_loop.induct)
  case (1 H d)
  show ?case
  proof (cases "size_dec (end_ix d) < len d")
    case False
    with "1.prems" show ?thesis
      by (auto simp: init_hash_skip_over_loop.simps [of H d])
  next
    case True
    note lt = this
    show ?thesis
    proof (cases "first_non_ACTG H (seq d) [start d ..< end_ix d]")
      case (Returns r)
      show ?thesis
      proof (cases r)
        case None
        with Returns lt "1.prems"
        obtain d1 where d1: "set_base_hashes H (drop (start d) (seq d)) d = Returns d1"
          and eq: "b = True" "d' = d1"
          by (auto simp: init_hash_skip_over_loop.simps [of H d] obind_Returns_iff)
        from lt have "end_ix d \<le> len d" by (rule size_dec_less)
        with set_base_hashes_fields [OF d1] eq show ?thesis by simp
      next
        case (Some i)
        with Returns lt "1.prems"
        have rec: "init_hash_skip_over_loop H (d\<lparr>start := i + 1, end_ix := i + 1 + ksz d\<rparr>)
                     = Returns (b, d')"
          by (simp add: init_hash_skip_over_loop.simps [of H d])
        from Returns Some have "i \<in> set [start d ..< end_ix d]"
          by (auto dest: first_non_ACTG_Some)
        with "1.IH" [OF lt Returns Some rec] show ?thesis by auto
      qed
    next
      case (Throws e)
      with lt "1.prems" show ?thesis
        by (simp add: init_hash_skip_over_loop.simps [of H d])
    next
      case (Undefined u)
      with lt "1.prems" show ?thesis
        by (simp add: init_hash_skip_over_loop.simps [of H d])
    qed
  qed
qed

lemma roll_one_True_advances:
  assumes "roll_one P H d = Returns (True, d')"
  shows "len d' = len d \<and> end_ix d < end_ix d' \<and> end_ix d' \<le> len d'"
proof (cases P)
  case WRITEOVER
  with assms show ?thesis
    by (auto simp: roll_one_def roll_one_write_over_def obind_Returns_iff Let_def
        set_next_hashes_eq split: if_splits)
next
  case SKIPOVER
  have loop: "len d2 = len d1 \<and> end_ix d < end_ix d2 \<and> end_ix d2 \<le> len d2"
    if "init_hash_skip_over_loop H d1 = Returns (True, d2)"
      and "end_ix d1 = start d1 + ksz d1" and "end_ix d < start d1" for d1 d2
    using init_hash_skip_over_loop_fields [OF that(1)] that(2,3) by auto
  from SKIPOVER assms show ?thesis
    by (auto simp: roll_one_def roll_one_skip_over_def obind_Returns_iff Let_def
        init_hash_def init_hash_skip_over_def set_next_hashes_eq
        split: if_splits dest!: loop)
qed

text \<open>
  The loop \<open>while (dig.roll_one()) { ... dig.get_pos() ... }\<close> with which the callers of a
  cursor (tests/test/test.cpp, \<open>append_seq_compare\<close>) read every k-mer up to the end of
  the slice. It returns what was read and the cursor it leaves.
\<close>

function roll_all :: "BadCharPolicy \<Rightarrow> hasher \<Rightarrow> digester \<Rightarrow> (emission list \<times> digester) call" where
  "roll_all P H d =
     (case roll_one P H d of
        Returns (b, d') \<Rightarrow>
          (if b then obind (roll_all P H d') (\<lambda>(es, d''). Returns (emission d' # es, d''))
           else Returns ([], d'))
      | Throws e \<Rightarrow> Throws e
      | Undefined u \<Rightarrow> Undefined u)"
  by pat_completeness auto
termination
proof (relation "measure (\<lambda>(P, H, d). len d - end_ix d)", goal_cases)
  case 1
  show ?case by simp
next
  case (2 P H d x b d')
  then have "roll_one P H d = Returns (True, d')" by simp
  from roll_one_True_advances [OF this] show ?case by auto
qed

declare roll_all.simps [simp del]

text \<open>
  \<open>if (dig.get_is_valid_hash()) { read } while (dig.roll_one()) { read }\<close>: the k-mer the
  cursor stands on, then every k-mer up to the end of the slice.
\<close>

definition read_all :: "BadCharPolicy \<Rightarrow> hasher \<Rightarrow> digester \<Rightarrow> (emission list \<times> digester) call" where
  "read_all P H d =
     obind (roll_all P H d)
       (\<lambda>(es, d'). Returns ((if get_is_valid_hash d then [emission d] else []) @ es, d'))"

text \<open>
  A sequence digested in one piece: the constructor, then every k-mer read. What is
  kept is the list of what was read.
\<close>

definition digest ::
  "BadCharPolicy \<Rightarrow> hasher \<Rightarrow> string \<Rightarrow> nat \<Rightarrow> nat \<Rightarrow> MinimizedHashType \<Rightarrow> (exn, emission list) outcome" where
  "digest P H s k st mh =
     (case Digester_string P H s k st mh of
        Returns d \<Rightarrow>
          (case read_all P H d of
             Returns (es, d') \<Rightarrow> Returns es
           | Throws (e, d') \<Rightarrow> Throws e
           | Undefined u \<Rightarrow> Undefined u)
      | Throws e \<Rightarrow> Throws e
      | Undefined u \<Rightarrow> Undefined u)"

text \<open>
  A sequence digested in pieces, as \<open>append_seq_compare\<close> and \<open>append_seq_compare3\<close> of
  tests/test/test.cpp do: for each further piece, \<open>append_seq\<close>, then every k-mer read.
\<close>

fun append_all ::
  "BadCharPolicy \<Rightarrow> hasher \<Rightarrow> string list \<Rightarrow> digester \<Rightarrow> (emission list \<times> digester) call" where
  "append_all P H [] d = Returns ([], d)"
| "append_all P H (s # ss) d =
     obind (append_seq_string P H s d) (\<lambda>d1.
     obind (read_all P H d1) (\<lambda>(es, d2).
     obind (append_all P H ss d2) (\<lambda>(es', d3). Returns (es @ es', d3))))"

definition digest_split ::
  "BadCharPolicy \<Rightarrow> hasher \<Rightarrow> string \<Rightarrow> string list \<Rightarrow> nat \<Rightarrow> nat \<Rightarrow> MinimizedHashType
     \<Rightarrow> (exn, emission list) outcome" where
  "digest_split P H s ss k st mh =
     (case Digester_string P H s k st mh of
        Returns d \<Rightarrow>
          (case obind (read_all P H d) (\<lambda>(es, d1).
                obind (append_all P H ss d1) (\<lambda>(es', d2). Returns (es @ es', d2))) of
             Returns (es, d') \<Rightarrow> Returns es
           | Throws (e, d') \<Rightarrow> Throws e
           | Undefined u \<Rightarrow> Undefined u)
      | Throws e \<Rightarrow> Throws e
      | Undefined u \<Rightarrow> Undefined u)"

text \<open>\<open>roll_one\<close> called \<open>n + 1\<close> times in a row; the outcome of the last call.\<close>

fun roll_times :: "nat \<Rightarrow> BadCharPolicy \<Rightarrow> hasher \<Rightarrow> digester \<Rightarrow> (bool \<times> digester) call" where
  "roll_times 0 P H d = roll_one P H d"
| "roll_times (Suc n) P H d = obind (roll_one P H d) (\<lambda>(b, d'). roll_times n P H d')"

section \<open>An instance of the primitives\<close>

text \<open>
  The rotate-and-XOR construction of ntHash over 64-bit words, with one seed per
  nucleotide: the forward hash of a k-mer XORs the seed of its i-th byte rotated left by
  k - 1 - i, the reverse hash is the forward hash of the reverse complement, and the
  canonical hash is the smaller of the two. Plain \<open>char\<close> is signed, as it is on x86-64
  Linux, where the project is built and tested. The instance serves to run the cursor on
  concrete sequences.
\<close>

definition nt_seed :: "char \<Rightarrow> hash" where
  "nt_seed c =
     (if c = CHR ''A'' \<or> c = CHR ''a'' then 0x3c8bfbb395c60474
      else if c = CHR ''C'' \<or> c = CHR ''c'' then 0x3193c18562a02b4c
      else if c = CHR ''G'' \<or> c = CHR ''g'' then 0x20323ed082572324
      else if c = CHR ''T'' \<or> c = CHR ''t'' then 0x295549f54be24456
      else 0)"

definition nt_complement :: "char \<Rightarrow> char" where
  "nt_complement c =
     (if c = CHR ''A'' \<or> c = CHR ''a'' then CHR ''T''
      else if c = CHR ''C'' \<or> c = CHR ''c'' then CHR ''G''
      else if c = CHR ''G'' \<or> c = CHR ''g'' then CHR ''C''
      else if c = CHR ''T'' \<or> c = CHR ''t'' then CHR ''A''
      else c)"

fun nt_forward :: "string \<Rightarrow> hash" where
  "nt_forward [] = 0"
| "nt_forward (c # cs) = word_rotl (length cs) (nt_seed c) XOR nt_forward cs"

definition nt_reverse :: "string \<Rightarrow> hash" where
  "nt_reverse s = nt_forward (map nt_complement (rev s))"

definition nt_hasher :: hasher where
  "nt_hasher =
     \<lparr>base_forward_hash = (\<lambda>buf k. nt_forward (take k buf)),
      base_reverse_hash = (\<lambda>buf k. nt_reverse (take k buf)),
      next_forward_hash = (\<lambda>prev k char_out char_in.
         word_rotl 1 prev XOR word_rotl k (nt_seed char_out) XOR nt_seed char_in),
      next_reverse_hash = (\<lambda>prev k char_out char_in.
         word_rotr 1 (prev XOR nt_seed (nt_complement char_out)
                           XOR word_rotl k (nt_seed (nt_complement char_in)))),
      canonical = (\<lambda>f r. if r < f then r else f),
      plain_char_signed = True\<rparr>"

section \<open>Cursors a caller can see\<close>

text \<open>
  \<open>visible P H d\<close>: some sequence of calls of the public interface (the constructor,
  \<open>roll_one\<close>, \<open>new_seq\<close>, \<open>append_seq\<close>, on strings) leaves a cursor in state \<open>d\<close>. A
  call that throws leaves the object to its caller as well.
\<close>

inductive visible :: "BadCharPolicy \<Rightarrow> hasher \<Rightarrow> digester \<Rightarrow> bool" for P H where
  visible_Digester: "Digester_string P H s k st mh = Returns d \<Longrightarrow> visible P H d"
| visible_roll_one: "visible P H d \<Longrightarrow> roll_one P H d = Returns (b, d') \<Longrightarrow> visible P H d'"
| visible_new_seq: "visible P H d \<Longrightarrow> new_seq_string P H s st d = Returns d' \<Longrightarrow> visible P H d'"
| visible_new_seq_throws:
    "visible P H d \<Longrightarrow> new_seq_string P H s st d = Throws (e, d') \<Longrightarrow> visible P H d'"
| visible_append_seq:
    "visible P H d \<Longrightarrow> append_seq_string P H s d = Returns d' \<Longrightarrow> visible P H d'"
| visible_append_seq_throws:
    "visible P H d \<Longrightarrow> append_seq_string P H s d = Throws (e, d') \<Longrightarrow> visible P H d'"

section \<open>Cursors to run on\<close>

text \<open>
  The cursor that \<open>Digester("ACGT", 4)\<close> constructs under SKIPOVER with the instance
  \<open>nt_hasher\<close>: it stands on the only k-mer of its sequence, with \<open>end = len\<close>.
\<close>

definition acgt_cursor :: digester where
  "acgt_cursor =
     \<lparr>seq = ''ACGT'', len = 4, offset = 0, start = 0, end_ix = 4,
      chash = canonical nt_hasher (base_forward_hash nt_hasher ''ACGT'' 4)
                (base_reverse_hash nt_hasher ''ACGT'' 4),
      fhash = base_forward_hash nt_hasher ''ACGT'' 4,
      rhash = base_reverse_hash nt_hasher ''ACGT'' 4,
      ksz = 4, c_outs = [], minimized_h = CANON, is_valid_hash = True\<rparr>"

text \<open>
  The cursor after \<open>Digester("ACGT", 4)\<close>, a \<open>roll_one\<close> that returns false and
  \<open>append_seq("A")\<close>, under SKIPOVER: it stands on \<open>CGTA\<close>, all of it in the carry.
\<close>

definition cgta_cursor :: digester where
  "cgta_cursor =
     \<lparr>seq = ''A'', len = 1, offset = 4, start = 1, end_ix = 1,
      chash = canonical nt_hasher (base_forward_hash nt_hasher ''CGTA'' 4)
                (base_reverse_hash nt_hasher ''CGTA'' 4),
      fhash = base_forward_hash nt_hasher ''CGTA'' 4,
      rhash = base_reverse_hash nt_hasher ''CGTA'' 4,
      ksz = 4, c_outs = ''CGTA'', minimized_h = CANON, is_valid_hash = True\<rparr>"

text \<open>
  The same with \<open>append_seq("AC")\<close>: the cursor stands on \<open>CGTA\<close>, with one byte of the
  slice still to come.
\<close>

definition cgta_ac_cursor :: digester where
  "cgta_ac_cursor = cgta_cursor\<lparr>seq := ''AC'', len := 2\<rparr>"

text \<open>The cursor after one more \<open>roll_one\<close>, which returns true: it stands on \<open>GTAC\<close>.\<close>

definition gtac_cursor :: digester where
  "gtac_cursor =
     \<lparr>seq = ''AC'', len = 2, offset = 4, start = 1, end_ix = 2,
      chash = canonical nt_hasher
                (next_forward_hash nt_hasher (fhash cgta_ac_cursor) 4 CHR ''C'' CHR ''C'')
                (next_reverse_hash nt_hasher (rhash cgta_ac_cursor) 4 CHR ''C'' CHR ''C''),
      fhash = next_forward_hash nt_hasher (fhash cgta_ac_cursor) 4 CHR ''C'' CHR ''C'',
      rhash = next_reverse_hash nt_hasher (rhash cgta_ac_cursor) 4 CHR ''C'' CHR ''C'',
      ksz = 4, c_outs = ''GTA'', minimized_h = CANON, is_valid_hash = True\<rparr>"

text \<open>
  The cursor after \<open>Digester("ACGT", 4)\<close> and \<open>append_seq("")\<close>, under SKIPOVER: the slice
  is empty, the carry is \<open>CGT\<close>, the hashes and \<open>is_valid_hash\<close> are those of
  \<open>acgt_cursor\<close>.
\<close>

definition stale_cursor :: digester where
  "stale_cursor =
     acgt_cursor\<lparr>seq := [], len := 0, offset := 4, start := 0, end_ix := 0, c_outs := ''CGT''\<rparr>"

text \<open>
  The cursor that \<open>Digester("AC", 4)\<close> constructs: the sequence is shorter than \<open>k\<close>, the
  cursor is not valid. And the cursor after \<open>append_seq("")\<close> on it: the slice is empty,
  the carry is \<open>AC\<close>.
\<close>

definition ac_cursor :: digester where
  "ac_cursor =
     \<lparr>seq = ''AC'', len = 2, offset = 0, start = 0, end_ix = 4, chash = 0, fhash = 0,
      rhash = 0, ksz = 4, c_outs = [], minimized_h = CANON, is_valid_hash = False\<rparr>"

definition ac_empty_cursor :: digester where
  "ac_empty_cursor =
     ac_cursor\<lparr>seq := [], len := 0, offset := 2, start := 0, end_ix := 0, c_outs := ''AC''\<rparr>"

section \<open>The table lookup\<close>

lemma actg_length: "length actg = 256"
  by (simp add: actg_def)

lemma of_char_less_256: "(of_char c :: nat) < 256"
  by (cases c) (simp add: of_char_Char [where ?'a = nat] horner_sum_bit_eq_take_bit take_bit_nat_less_exp)

text \<open>
  Claim C9. Where plain \<open>char\<close> is signed, the byte 0x80 is the \<open>char\<close> -128, the
  subscript converts it to \<open>2^64 - 128\<close>, and \<open>actg[in]\<close> reads outside the 256 entries
  of the table.
\<close>

theorem is_ACTG_lookup_signed_char_out_of_bounds:
  "is_ACTG_lookup True (char_of (128 :: nat)) = Undefined OutOfBoundsRead"
  by (simp add: is_ACTG_lookup_def char_to_size_t_def actg_length Let_def)

lemma actg_nth_iff: "actg ! of_char c \<longleftrightarrow> nucleotide c"
  by (cases c) (simp add: actg_def nucleotide_def; fail)

lemma is_ACTG_lookup_unsigned_char:
  "is_ACTG_lookup False c = Returns (nucleotide c)"
  using of_char_less_256 [of c] actg_nth_iff [of c]
  by (simp add: is_ACTG_lookup_def char_to_size_t_def actg_length Let_def)

lemma is_ACTG_lookup_signed_char_ascii:
  "(of_char c :: nat) < 128 \<Longrightarrow> is_ACTG_lookup True c = Returns (nucleotide c)"
  using actg_nth_iff [of c]
  by (simp add: is_ACTG_lookup_def char_to_size_t_def actg_length Let_def)

lemma is_ACTG_lookup_signed_char_high:
  "128 \<le> (of_char c :: nat) \<Longrightarrow> is_ACTG_lookup True c = Undefined OutOfBoundsRead"
  by (simp add: is_ACTG_lookup_def char_to_size_t_def actg_length Let_def)

lemma is_ACTG_lookup_eq:
  "is_ACTG_lookup char_is_signed c =
     (if char_is_signed \<and> 128 \<le> (of_char c :: nat) then Undefined OutOfBoundsRead
      else Returns (nucleotide c))"
  by (cases char_is_signed)
    (simp_all add: is_ACTG_lookup_unsigned_char is_ACTG_lookup_signed_char_ascii
      is_ACTG_lookup_signed_char_high)

lemma is_ACTG_ascii:
  "(of_char c :: nat) < 128 \<Longrightarrow> is_ACTG H c = Returns (nucleotide c)"
  by (cases "plain_char_signed H")
    (simp_all add: is_ACTG_def is_ACTG_lookup_unsigned_char is_ACTG_lookup_signed_char_ascii)

lemma is_ACTG_cases:
  "is_ACTG H c = Returns (nucleotide c) \<or> is_ACTG H c = Undefined OutOfBoundsRead"
  by (cases "plain_char_signed H"; cases "(of_char c :: nat) < 128")
    (simp_all add: is_ACTG_def is_ACTG_lookup_unsigned_char is_ACTG_lookup_signed_char_ascii
      is_ACTG_lookup_signed_char_high)

section \<open>Exceptions\<close>

lemma obind_Throws_iff:
  "obind m f = Throws e \<longleftrightarrow> m = Throws e \<or> (\<exists>x. m = Returns x \<and> f x = Throws e)"
  by (cases m) (auto simp: obind_def)

lemma read_at_no_throw: "read_at s i \<noteq> Throws e"
  by (simp add: read_at_def)

lemma is_ACTG_no_throw: "is_ACTG H c \<noteq> Throws e"
  using is_ACTG_cases [of H c] by auto

lemma write_over_no_throw: "write_over H c \<noteq> Throws e"
  by (simp add: write_over_def obind_Throws_iff is_ACTG_no_throw)

lemma first_non_ACTG_no_throw: "first_non_ACTG H s ixs \<noteq> Throws e"
  by (induction ixs) (auto simp: obind_Throws_iff read_at_no_throw is_ACTG_no_throw)

lemma set_base_hashes_no_throw: "set_base_hashes H buf d \<noteq> Throws e"
  by (simp add: set_base_hashes_eq)

lemma set_next_hashes_no_throw: "set_next_hashes H a b d \<noteq> Throws e"
  by (simp add: set_next_hashes_eq)

lemma init_hash_skip_over_loop_no_throw: "init_hash_skip_over_loop H d \<noteq> Throws e"
proof (induction H d rule: init_hash_skip_over_loop.induct)
  case (1 H d)
  show ?case
    using 1 first_non_ACTG_no_throw [of H "seq d" "[start d ..< end_ix d]"]
    by (subst init_hash_skip_over_loop.simps)
      (auto simp: obind_Throws_iff set_base_hashes_no_throw split: outcome.splits option.splits)
qed

lemma build_init_str_no_throw: "build_init_str H s ixs \<noteq> Throws e"
  by (induction ixs) (auto simp: obind_Throws_iff read_at_no_throw write_over_no_throw)

lemma init_hash_no_throw: "init_hash P H d \<noteq> Throws e"
  by (auto simp: init_hash_def init_hash_skip_over_def init_hash_write_over_def Let_def
      obind_Throws_iff init_hash_skip_over_loop_no_throw build_init_str_no_throw
      set_base_hashes_no_throw)

lemma roll_one_no_throw: "roll_one P H d \<noteq> Throws e"
  by (auto simp: roll_one_def roll_one_skip_over_def roll_one_write_over_def Let_def
      obind_Throws_iff init_hash_no_throw read_at_no_throw set_next_hashes_no_throw
      is_ACTG_no_throw write_over_no_throw split: if_splits)

lemma tail_loop_skip_over_no_throw: "tail_loop_skip_over H s st k n temp_vec ind \<noteq> Throws e"
proof (induction H s st k n temp_vec ind rule: tail_loop_skip_over.induct)
  case (1 H s st k n temp_vec ind)
  then show ?case
    by (subst tail_loop_skip_over.simps)
      (auto simp: obind_Throws_iff read_at_no_throw is_ACTG_no_throw)
qed

lemma tail_loop_write_over_no_throw: "tail_loop_write_over H s st k n temp_vec ind \<noteq> Throws e"
proof (induction H s st k n temp_vec ind rule: tail_loop_write_over.induct)
  case (1 H s st k n temp_vec ind)
  then show ?case
    by (subst tail_loop_write_over.simps)
      (auto simp: obind_Throws_iff read_at_no_throw write_over_no_throw)
qed

lemma fill_loop_skip_over_no_throw: "fill_loop_skip_over H s n d ind \<noteq> Throws e"
proof (induction H s n d ind rule: fill_loop_skip_over.induct)
  case (1 H s n d ind)
  then show ?case
    by (subst fill_loop_skip_over.simps)
      (auto simp: Let_def obind_Throws_iff init_hash_no_throw read_at_no_throw
        is_ACTG_no_throw split: prod.splits)
qed

lemma fill_loop_write_over_no_throw: "fill_loop_write_over H s n d ind \<noteq> Throws e"
proof (induction H s n d ind rule: fill_loop_write_over.induct)
  case (1 H s n d ind)
  then show ?case
    by (subst fill_loop_write_over.simps)
      (auto simp: obind_Throws_iff read_at_no_throw write_over_no_throw)
qed

lemma append_seq_epilogue_no_throw: "append_seq_epilogue H s n d \<noteq> Throws e"
  by (auto simp: append_seq_epilogue_def obind_Throws_iff set_base_hashes_no_throw)

text \<open>
  Claim C6. \<open>append_seq\<close> throws exactly when \<open>end < len\<close> holds as it is entered; what
  it throws is \<open>NotRolledTillEndException\<close>, and the cursor it leaves is the cursor it
  was called on, every data member unchanged.
\<close>

theorem append_seq_throws_iff:
  "append_seq P H s n d = Throws (e, d') \<longleftrightarrow>
     end_ix d < len d \<and> e = NotRolledTillEndException \<and> d' = d"
  by (auto simp: append_seq_def append_seq_skip_over_def append_seq_write_over_def Let_def
      obind_Throws_iff tail_loop_skip_over_no_throw tail_loop_write_over_no_throw
      fill_loop_skip_over_no_throw fill_loop_write_over_no_throw append_seq_epilogue_no_throw)

text \<open>
  Claim C10. \<open>new_seq(seq, len, start)\<close> with \<open>start \<ge> len\<close> throws
  \<open>BadConstructionException\<close> after it has overwritten \<open>seq\<close>, \<open>len\<close>, \<open>start\<close> and \<open>end\<close>
  with the new arguments (\<open>end\<close> with \<open>start + k\<close> in \<open>size_t\<close> arithmetic), set \<open>offset\<close>
  to 0 and \<open>is_valid_hash\<close> to false: the cursor the caller is left with is the
  overwritten one, not the one it had.
\<close>

theorem new_seq_throws_after_overwriting:
  "n \<le> st \<Longrightarrow>
   new_seq P H s n st d =
     Throws (BadConstructionException,
       d\<lparr>seq := s, len := n, offset := 0, start := st, end_ix := (st + ksz d) mod 2 ^ 64,
         is_valid_hash := False\<rparr>)"
  by (simp add: new_seq_def Let_def)

theorem new_seq_throws_after_overwriting_witness:
  "(2 :: nat) \<le> 5
   \<and> new_seq SKIPOVER nt_hasher ''AC'' 2 5 acgt_cursor =
       Throws (BadConstructionException,
         acgt_cursor\<lparr>seq := ''AC'', len := 2, offset := 0, start := 5, end_ix := 9,
           is_valid_hash := False\<rparr>)
   \<and> acgt_cursor\<lparr>seq := ''AC'', len := 2, offset := 0, start := 5, end_ix := 9,
           is_valid_hash := False\<rparr> \<noteq> acgt_cursor
   \<and> (2 :: nat) \<le> 2 ^ 64 - 1
   \<and> new_seq SKIPOVER nt_hasher ''AC'' 2 (2 ^ 64 - 1) acgt_cursor =
       Throws (BadConstructionException,
         acgt_cursor\<lparr>seq := ''AC'', len := 2, offset := 0, start := 2 ^ 64 - 1, end_ix := 3,
           is_valid_hash := False\<rparr>)"
  using new_seq_throws_after_overwriting [of 2 5 SKIPOVER nt_hasher "''AC''" acgt_cursor]
    new_seq_throws_after_overwriting [of 2 "2 ^ 64 - 1" SKIPOVER nt_hasher "''AC''" acgt_cursor]
  by (simp add: acgt_cursor_def)

lemma Digester_throws_iff:
  "Digester P H s n k st mh = Throws e \<longleftrightarrow>
    e = BadConstructionException \<and> (k < 4 \<or> n \<le> st \<or> 2 < mh)"
  using init_hash_no_throw by (auto simp: Digester_def Let_def split: outcome.splits)

lemma roll_one_off_end:
  "\<not> is_valid_hash d \<or> len d \<le> end_ix d \<Longrightarrow>
   roll_one P H d = Returns (False, d\<lparr>is_valid_hash := False\<rparr>)"
  by (auto simp: roll_one_def roll_one_skip_over_def roll_one_write_over_def)

text \<open>
  Claim C8. Under both policies, \<open>roll_one\<close> called on a cursor that is not valid, or
  whose \<open>end\<close> has reached \<open>len\<close>, returns false and leaves the cursor not valid; so
  does every further call, and none of them changes the position or the hashes: the
  only data member that can differ from the cursor before the first call is
  \<open>is_valid_hash\<close>.
\<close>

theorem roll_one_off_end_stays:
  assumes "\<not> is_valid_hash d \<or> len d \<le> end_ix d"
  shows "roll_times n P H d = Returns (False, d\<lparr>is_valid_hash := False\<rparr>)
     \<and> \<not> get_is_valid_hash (d\<lparr>is_valid_hash := False\<rparr>)
     \<and> get_pos (d\<lparr>is_valid_hash := False\<rparr>) = get_pos d
     \<and> get_fhash (d\<lparr>is_valid_hash := False\<rparr>) = get_fhash d
     \<and> get_rhash (d\<lparr>is_valid_hash := False\<rparr>) = get_rhash d
     \<and> get_chash (d\<lparr>is_valid_hash := False\<rparr>) = get_chash d"
proof -
  have "roll_times n P H d = Returns (False, d\<lparr>is_valid_hash := False\<rparr>)"
    using assms
  proof (induction n arbitrary: d)
    case 0
    then show ?case by (simp add: roll_one_off_end)
  next
    case (Suc n)
    have "roll_times n P H (d\<lparr>is_valid_hash := False\<rparr>)
            = Returns (False, d\<lparr>is_valid_hash := False, is_valid_hash := False\<rparr>)"
      by (rule Suc.IH) simp
    with Suc.prems show ?case by (simp add: roll_one_off_end obind_def)
  qed
  then show ?thesis
    by (simp add: get_is_valid_hash_def get_pos_def get_fhash_def get_rhash_def get_chash_def)
qed

theorem roll_one_off_end_stays_witness:
  "len acgt_cursor \<le> end_ix acgt_cursor
   \<and> roll_times 2 SKIPOVER nt_hasher acgt_cursor
       = Returns (False, acgt_cursor\<lparr>is_valid_hash := False\<rparr>)
   \<and> get_pos (acgt_cursor\<lparr>is_valid_hash := False\<rparr>) = get_pos acgt_cursor"
  using roll_one_off_end_stays [of acgt_cursor 2 SKIPOVER nt_hasher]
  by (simp add: acgt_cursor_def)

section \<open>Runs on concrete sequences\<close>

lemma acgt_cursor_constructed:
  "Digester_string SKIPOVER nt_hasher ''ACGT'' 4 0 CANON = Returns acgt_cursor"
  by code_simp

lemma acgt_cursor_rolled:
  "roll_one SKIPOVER nt_hasher acgt_cursor = Returns (False, acgt_cursor\<lparr>is_valid_hash := False\<rparr>)"
  by (rule roll_one_off_end) (simp add: acgt_cursor_def)

lemma cgta_cursor_appended:
  "append_seq_string SKIPOVER nt_hasher ''A'' (acgt_cursor\<lparr>is_valid_hash := False\<rparr>)
     = Returns cgta_cursor"
  by code_simp

lemma cgta_cursor_rolled:
  "roll_one SKIPOVER nt_hasher cgta_cursor = Returns (False, cgta_cursor\<lparr>is_valid_hash := False\<rparr>)"
  by (rule roll_one_off_end) (simp add: cgta_cursor_def)

lemma stale_cursor_appended:
  "append_seq_string SKIPOVER nt_hasher [] acgt_cursor = Returns stale_cursor"
  by code_simp

lemma visible_acgt_cursor: "visible SKIPOVER nt_hasher acgt_cursor"
  using acgt_cursor_constructed by (rule visible_Digester)

lemma visible_acgt_cursor_rolled:
  "visible SKIPOVER nt_hasher (acgt_cursor\<lparr>is_valid_hash := False\<rparr>)"
  using visible_acgt_cursor acgt_cursor_rolled by (rule visible_roll_one)

lemma visible_cgta_cursor: "visible SKIPOVER nt_hasher cgta_cursor"
  using visible_acgt_cursor_rolled cgta_cursor_appended by (rule visible_append_seq)

lemma cgta_ac_cursor_appended:
  "append_seq_string SKIPOVER nt_hasher ''AC'' (acgt_cursor\<lparr>is_valid_hash := False\<rparr>)
     = Returns cgta_ac_cursor"
  by code_simp

lemma visible_cgta_ac_cursor: "visible SKIPOVER nt_hasher cgta_ac_cursor"
  using visible_acgt_cursor_rolled cgta_ac_cursor_appended by (rule visible_append_seq)

lemma cgta_ac_cursor_rolled:
  "roll_one SKIPOVER nt_hasher cgta_ac_cursor = Returns (True, gtac_cursor)"
  by code_simp

lemma init_hash_on_cgta_cursor:
  "init_hash SKIPOVER nt_hasher
     (cgta_cursor\<lparr>seq := ''ACGT'', len := 4, offset := 0, start := 0, end_ix := 4,
        is_valid_hash := False\<rparr>) = Returns (True, acgt_cursor)"
  by code_simp

lemma new_seq_on_cgta_cursor:
  "new_seq_string SKIPOVER nt_hasher ''ACGT'' 0 cgta_cursor = Returns acgt_cursor"
proof -
  have k: "ksz cgta_cursor = 4" by (simp add: cgta_cursor_def)
  have l: "length ''ACGT'' = 4" by simp
  have "new_seq SKIPOVER nt_hasher ''ACGT'' 4 0 cgta_cursor = Returns acgt_cursor"
    by (simp add: new_seq_def Let_def k init_hash_on_cgta_cursor)
  then show ?thesis unfolding new_seq_string_def l .
qed

section \<open>The carry\<close>

lemma init_hash_carry:
  assumes "init_hash P H d = Returns (b, d')"
  shows "c_outs d' = []" "ksz d' = ksz d"
proof -
  have "c_outs d' = [] \<and> ksz d' = ksz d"
  proof (cases P)
    case SKIPOVER
    with assms have "init_hash_skip_over_loop H (d\<lparr>c_outs := []\<rparr>) = Returns (b, d')"
      by (simp add: init_hash_def init_hash_skip_over_def)
    from init_hash_skip_over_loop_fields [OF this] show ?thesis by simp
  next
    case WRITEOVER
    with assms show ?thesis
      by (auto simp: init_hash_def init_hash_write_over_def Let_def obind_Returns_iff
          set_base_hashes_eq split: if_splits)
  qed
  then show "c_outs d' = []" "ksz d' = ksz d" by simp_all
qed

lemma Digester_string_carry:
  assumes "Digester_string P H s k st mh = Returns d"
  shows "c_outs d = []" "ksz d = k" "4 \<le> k"
proof -
  let ?d0 = "\<lparr>seq = s, len = length s, offset = 0, start = st, end_ix = st + k, chash = 0,
     fhash = 0, rhash = 0, ksz = k, c_outs = [], minimized_h = mh, is_valid_hash = False\<rparr>"
  from assms have k: "4 \<le> k" and "\<exists>b. init_hash P H ?d0 = Returns (b, d)"
    by (auto simp: Digester_string_def Digester_def Let_def split: if_splits outcome.splits)
  then obtain b where "init_hash P H ?d0 = Returns (b, d)" by blast
  from init_hash_carry [OF this] k show "c_outs d = []" "ksz d = k" "4 \<le> k" by simp_all
qed

lemma new_seq_string_carry:
  assumes "new_seq_string P H s st d = Returns d'"
  shows "c_outs d' = []" "ksz d' = ksz d"
proof -
  let ?d0 = "d\<lparr>seq := s, len := length s, offset := 0, start := st,
     end_ix := (st + ksz d) mod 2 ^ 64, is_valid_hash := False\<rparr>"
  from assms have "\<exists>b. init_hash P H ?d0 = Returns (b, d')"
    by (auto simp: new_seq_string_def new_seq_def Let_def obind_Returns_iff split: if_splits)
  then obtain b where "init_hash P H ?d0 = Returns (b, d')" by blast
  from init_hash_carry [OF this] show "c_outs d' = []" "ksz d' = ksz d" by simp_all
qed

lemma new_seq_string_throws_carry:
  assumes "new_seq_string P H s st d = Throws (e, d')"
  shows "c_outs d' = c_outs d" "ksz d' = ksz d"
  using assms init_hash_no_throw [of P H]
  by (auto simp: new_seq_string_def new_seq_def Let_def obind_Throws_iff split: if_splits)

lemma roll_one_carry:
  assumes "roll_one P H d = Returns (b, d')"
  shows "ksz d' = ksz d"
    and "b \<Longrightarrow> length (c_outs d') \<le> length (c_outs d) - 1"
    and "\<not> b \<Longrightarrow> c_outs d' = c_outs d \<or> c_outs d' = []"
proof -
  have "ksz d' = ksz d \<and> (b \<longrightarrow> length (c_outs d') \<le> length (c_outs d) - 1)
      \<and> (\<not> b \<longrightarrow> c_outs d' = c_outs d \<or> c_outs d' = [])"
  proof (cases P)
    case WRITEOVER
    with assms show ?thesis
      by (auto simp: roll_one_def roll_one_write_over_def obind_Returns_iff Let_def
          set_next_hashes_eq split: if_splits)
  next
    case SKIPOVER
    have restart: "ksz d2 = ksz d1 \<and> c_outs d2 = []"
      if "init_hash SKIPOVER H d1 = Returns (b, d2)" for d1 d2
      using init_hash_carry [OF that] by simp
    from SKIPOVER assms show ?thesis
      by (auto simp: roll_one_def roll_one_skip_over_def obind_Returns_iff Let_def
          set_next_hashes_eq split: if_splits dest!: restart)
  qed
  then show "ksz d' = ksz d"
    and "b \<Longrightarrow> length (c_outs d') \<le> length (c_outs d) - 1"
    and "\<not> b \<Longrightarrow> c_outs d' = c_outs d \<or> c_outs d' = []"
    by simp_all
qed

lemma tail_loop_skip_over_length:
  "tail_loop_skip_over H s st k n temp_vec ind = Returns r \<Longrightarrow>
   length temp_vec + n \<le> k - 1 \<Longrightarrow> length r + n \<le> k - 1"
proof (induction H s st k n temp_vec ind rule: tail_loop_skip_over.induct)
  case (1 H s st k n temp_vec ind)
  from "1.prems"(1) show ?case
    by (subst (asm) tail_loop_skip_over.simps)
      (use "1.prems"(2) "1.IH" in \<open>auto simp: obind_Returns_iff split: if_splits\<close>)
qed

lemma tail_loop_write_over_length:
  "tail_loop_write_over H s st k n temp_vec ind = Returns r \<Longrightarrow>
   length temp_vec + n \<le> k - 1 \<Longrightarrow> length r + n \<le> k - 1"
proof (induction H s st k n temp_vec ind rule: tail_loop_write_over.induct)
  case (1 H s st k n temp_vec ind)
  from "1.prems"(1) show ?case
    by (subst (asm) tail_loop_write_over.simps)
      (use "1.prems"(2) "1.IH" in \<open>auto simp: obind_Returns_iff split: if_splits\<close>)
qed

lemma fill_loop_skip_over_carry:
  "fill_loop_skip_over H s n d ind = Returns d' \<Longrightarrow> length (c_outs d) \<le> ksz d \<Longrightarrow>
   length (c_outs d') \<le> ksz d \<and> ksz d' = ksz d"
proof (induction H s n d ind rule: fill_loop_skip_over.induct)
  case (1 H s n d ind)
  have restart: "ksz d2 = ksz d1 \<and> c_outs d2 = []"
    if "init_hash SKIPOVER H d1 = Returns (b, d2)" for d1 d2 b
    using init_hash_carry [OF that] by simp
  from "1.prems"(1) show ?case
    by (subst (asm) fill_loop_skip_over.simps)
      (use "1.prems"(2) "1.IH" in
        \<open>auto simp: obind_Returns_iff Let_def split: if_splits dest!: restart\<close>)
qed

lemma fill_loop_write_over_carry:
  "fill_loop_write_over H s n d ind = Returns d' \<Longrightarrow> length (c_outs d) \<le> ksz d \<Longrightarrow>
   length (c_outs d') \<le> ksz d \<and> ksz d' = ksz d"
proof (induction H s n d ind rule: fill_loop_write_over.induct)
  case (1 H s n d ind)
  from "1.prems"(1) show ?case
    by (subst (asm) fill_loop_write_over.simps)
      (use "1.prems"(2) "1.IH" in \<open>auto simp: obind_Returns_iff split: if_splits\<close>)
qed

lemma append_seq_prologue_carry:
  assumes "length (c_outs d) \<le> ksz d" "0 < ksz d"
  shows "length (c_outs (append_seq_prologue d)) \<le> ksz d - 1"
    "ksz (append_seq_prologue d) = ksz d"
  using assms by (auto simp: append_seq_prologue_def Let_def)

lemma append_seq_epilogue_carry:
  assumes "append_seq_epilogue H s n d = Returns d'"
  shows "c_outs d' = c_outs d" "ksz d' = ksz d"
    "length (c_outs d) = ksz d \<Longrightarrow> is_valid_hash d'"
  using assms
  by (auto simp: append_seq_epilogue_def obind_Returns_iff set_base_hashes_eq split: if_splits)

lemma append_seq_string_carry:
  assumes r: "append_seq_string P H s d = Returns d'"
    and c: "length (c_outs d) \<le> ksz d" and k: "0 < ksz d"
  shows "ksz d' = ksz d" "length (c_outs d') \<le> ksz d"
    "length (c_outs d') = ksz d \<Longrightarrow> is_valid_hash d'"
proof -
  let ?d1 = "append_seq_prologue d"
  note p = append_seq_prologue_carry [OF c k]
  have "\<exists>temp_vec d4. length temp_vec + length (c_outs ?d1) \<le> ksz d - 1
      \<and> (fill_loop_skip_over H s (length s)
            (?d1\<lparr>c_outs := c_outs ?d1 @ rev temp_vec, start := 0, end_ix := 0\<rparr>) 0 = Returns d4
          \<or> fill_loop_write_over H s (length s)
            (?d1\<lparr>c_outs := c_outs ?d1 @ rev temp_vec, start := 0, end_ix := 0\<rparr>) 0 = Returns d4)
      \<and> append_seq_epilogue H s (length s) d4 = Returns d'"
  proof (cases P)
    case SKIPOVER
    with r obtain temp_vec d4 where
      t: "tail_loop_skip_over H (seq ?d1) (start ?d1) (ksz ?d1) (length (c_outs ?d1)) []
            (size_dec (len d)) = Returns temp_vec"
      and f: "fill_loop_skip_over H s (length s)
            (?d1\<lparr>c_outs := c_outs ?d1 @ rev temp_vec, start := 0, end_ix := 0\<rparr>) 0 = Returns d4"
      and e: "append_seq_epilogue H s (length s) d4 = Returns d'"
      by (auto simp: append_seq_string_def append_seq_def append_seq_skip_over_def Let_def
          obind_Returns_iff split: if_splits)
    from tail_loop_skip_over_length [OF t] p
    have "length temp_vec + length (c_outs ?d1) \<le> ksz d - 1" by simp
    with f e show ?thesis by blast
  next
    case WRITEOVER
    with r obtain temp_vec d4 where
      t: "tail_loop_write_over H (seq ?d1) (start ?d1) (ksz ?d1) (length (c_outs ?d1)) []
            (size_dec (len d)) = Returns temp_vec"
      and f: "fill_loop_write_over H s (length s)
            (?d1\<lparr>c_outs := c_outs ?d1 @ rev temp_vec, start := 0, end_ix := 0\<rparr>) 0 = Returns d4"
      and e: "append_seq_epilogue H s (length s) d4 = Returns d'"
      by (auto simp: append_seq_string_def append_seq_def append_seq_write_over_def Let_def
          obind_Returns_iff split: if_splits)
    from tail_loop_write_over_length [OF t] p
    have "length temp_vec + length (c_outs ?d1) \<le> ksz d - 1" by simp
    with f e show ?thesis by blast
  qed
  then obtain temp_vec d4 where
    l: "length temp_vec + length (c_outs ?d1) \<le> ksz d - 1"
    and f: "fill_loop_skip_over H s (length s)
            (?d1\<lparr>c_outs := c_outs ?d1 @ rev temp_vec, start := 0, end_ix := 0\<rparr>) 0 = Returns d4
          \<or> fill_loop_write_over H s (length s)
            (?d1\<lparr>c_outs := c_outs ?d1 @ rev temp_vec, start := 0, end_ix := 0\<rparr>) 0 = Returns d4"
    and e: "append_seq_epilogue H s (length s) d4 = Returns d'"
    by blast
  let ?d3 = "?d1\<lparr>c_outs := c_outs ?d1 @ rev temp_vec, start := 0, end_ix := 0\<rparr>"
  from l p(2) have "length (c_outs ?d3) \<le> ksz ?d3" by simp
  with f have "length (c_outs d4) \<le> ksz ?d3 \<and> ksz d4 = ksz ?d3"
    by (auto dest: fill_loop_skip_over_carry fill_loop_write_over_carry)
  with p(2) have d4: "length (c_outs d4) \<le> ksz d" "ksz d4 = ksz d" by simp_all
  note ep = append_seq_epilogue_carry [OF e]
  from ep(1,2) d4 show "ksz d' = ksz d" "length (c_outs d') \<le> ksz d" by simp_all
  show "is_valid_hash d'" if "length (c_outs d') = ksz d"
    using ep(3) ep(1) d4(2) that by simp
qed

lemma append_seq_string_throws:
  "append_seq_string P H s d = Throws (e, d') \<Longrightarrow> d' = d"
  by (auto simp: append_seq_string_def append_seq_def append_seq_skip_over_def
      append_seq_write_over_def Let_def obind_Throws_iff tail_loop_skip_over_no_throw
      tail_loop_write_over_no_throw fill_loop_skip_over_no_throw fill_loop_write_over_no_throw
      append_seq_epilogue_no_throw split: if_splits)

lemma visible_carry: "visible P H d \<Longrightarrow> 4 \<le> ksz d \<and> length (c_outs d) \<le> ksz d"
proof (induction rule: visible.induct)
  case (visible_Digester s k st mh d)
  from Digester_string_carry [OF this] show ?case by simp
next
  case (visible_roll_one d b d')
  from roll_one_carry [OF visible_roll_one.hyps(2)] visible_roll_one.IH show ?case
    by (cases b) auto
next
  case (visible_new_seq d s st d')
  from new_seq_string_carry [OF visible_new_seq.hyps(2)] visible_new_seq.IH show ?case by simp
next
  case (visible_new_seq_throws d s st e d')
  from new_seq_string_throws_carry [OF visible_new_seq_throws.hyps(2)] visible_new_seq_throws.IH
  show ?case by simp
next
  case (visible_append_seq d s d')
  from visible_append_seq.IH have "length (c_outs d) \<le> ksz d" "0 < ksz d" by simp_all
  from append_seq_string_carry(1,2) [OF visible_append_seq.hyps(2) this] visible_append_seq.IH
  show ?case by simp
next
  case (visible_append_seq_throws d s e d')
  from append_seq_string_throws [OF visible_append_seq_throws.hyps(2)] visible_append_seq_throws.IH
  show ?case by simp
qed

text \<open>
  Claim C7, the counterexample. \<open>Digester("ACGT", 4)\<close>, a \<open>roll_one\<close> that returns false,
  then \<open>append_seq("A")\<close>: the call has returned, and the carry holds the four bytes
  \<open>CGTA\<close>, as many as \<open>k\<close>; the bound \<open>k - 1\<close> fails. It still fails after the next
  \<open>roll_one\<close>, which returns false and leaves the carry as it is.
\<close>

theorem carry_reaches_k:
  "Digester_string SKIPOVER nt_hasher ''ACGT'' 4 0 CANON = Returns acgt_cursor
   \<and> roll_one SKIPOVER nt_hasher acgt_cursor
       = Returns (False, acgt_cursor\<lparr>is_valid_hash := False\<rparr>)
   \<and> append_seq_string SKIPOVER nt_hasher ''A'' (acgt_cursor\<lparr>is_valid_hash := False\<rparr>)
       = Returns cgta_cursor
   \<and> visible SKIPOVER nt_hasher cgta_cursor
   \<and> ksz cgta_cursor = 4 \<and> c_outs cgta_cursor = ''CGTA''
   \<and> \<not> length (c_outs cgta_cursor) \<le> ksz cgta_cursor - 1
   \<and> roll_one SKIPOVER nt_hasher cgta_cursor
       = Returns (False, cgta_cursor\<lparr>is_valid_hash := False\<rparr>)
   \<and> \<not> length (c_outs (cgta_cursor\<lparr>is_valid_hash := False\<rparr>))
         \<le> ksz (cgta_cursor\<lparr>is_valid_hash := False\<rparr>) - 1"
  using acgt_cursor_constructed acgt_cursor_rolled cgta_cursor_appended visible_cgta_cursor
    cgta_cursor_rolled
  by (simp add: cgta_cursor_def)

text \<open>
  Claim C7, amended. The carry is empty after the constructor and after a \<open>new_seq\<close>
  that returns. From every state a caller can see (after the constructor, a \<open>roll_one\<close>,
  a \<open>new_seq\<close> or an \<open>append_seq\<close>, returned or thrown), where the carry holds at most
  \<open>k\<close> bytes: a \<open>roll_one\<close> that returns true leaves at most \<open>k - 1\<close> bytes in the carry;
  a \<open>roll_one\<close> that returns false leaves the carry as it was, or empty; an
  \<open>append_seq\<close> that returns leaves at most \<open>k\<close> bytes in the carry, and when it leaves
  \<open>k\<close>, the cursor is valid.
\<close>

theorem carry_bound:
  "(Digester_string P H s0 k st0 mh = Returns d0 \<longrightarrow> c_outs d0 = [])
   \<and> (visible P H d \<longrightarrow>
        length (c_outs d) \<le> ksz d
        \<and> (new_seq_string P H s st d = Returns d' \<longrightarrow> c_outs d' = [])
        \<and> (roll_one P H d = Returns (True, d') \<longrightarrow> length (c_outs d') \<le> ksz d' - 1)
        \<and> (roll_one P H d = Returns (False, d') \<longrightarrow> c_outs d' = c_outs d \<or> c_outs d' = [])
        \<and> (append_seq_string P H s d = Returns d' \<longrightarrow>
             length (c_outs d') \<le> ksz d'
             \<and> (length (c_outs d') = ksz d' \<longrightarrow> is_valid_hash d')))"
proof (intro conjI impI)
  assume "Digester_string P H s0 k st0 mh = Returns d0"
  then show "c_outs d0 = []" by (rule Digester_string_carry(1))
next
  assume v: "visible P H d"
  note c = visible_carry [OF v]
  from c show "length (c_outs d) \<le> ksz d" by simp
  show "c_outs d' = []" if "new_seq_string P H s st d = Returns d'"
    using that by (rule new_seq_string_carry(1))
  show "length (c_outs d') \<le> ksz d' - 1" if "roll_one P H d = Returns (True, d')"
    using roll_one_carry(1,2) [OF that] c by auto
  show "c_outs d' = c_outs d \<or> c_outs d' = []" if "roll_one P H d = Returns (False, d')"
    using roll_one_carry(3) [OF that] by simp
  from c have ck: "length (c_outs d) \<le> ksz d" "0 < ksz d" by simp_all
  show "length (c_outs d') \<le> ksz d'" if "append_seq_string P H s d = Returns d'"
    using append_seq_string_carry(1,2) [OF that ck] by simp
  show "is_valid_hash d'"
    if "append_seq_string P H s d = Returns d'" "length (c_outs d') = ksz d'"
    using append_seq_string_carry(1,3) [OF that(1) ck] that(2) by simp
qed

theorem carry_bound_witness:
  "Digester_string SKIPOVER nt_hasher ''ACGT'' 4 0 CANON = Returns acgt_cursor
   \<and> c_outs acgt_cursor = []
   \<and> visible SKIPOVER nt_hasher (acgt_cursor\<lparr>is_valid_hash := False\<rparr>)
   \<and> append_seq_string SKIPOVER nt_hasher ''A'' (acgt_cursor\<lparr>is_valid_hash := False\<rparr>)
       = Returns cgta_cursor
   \<and> length (c_outs cgta_cursor) \<le> ksz cgta_cursor
   \<and> length (c_outs cgta_cursor) = ksz cgta_cursor \<and> is_valid_hash cgta_cursor
   \<and> visible SKIPOVER nt_hasher cgta_cursor
   \<and> roll_one SKIPOVER nt_hasher cgta_cursor
       = Returns (False, cgta_cursor\<lparr>is_valid_hash := False\<rparr>)
   \<and> c_outs (cgta_cursor\<lparr>is_valid_hash := False\<rparr>) = c_outs cgta_cursor
   \<and> new_seq_string SKIPOVER nt_hasher ''ACGT'' 0 cgta_cursor = Returns acgt_cursor
   \<and> visible SKIPOVER nt_hasher cgta_ac_cursor
   \<and> length (c_outs cgta_ac_cursor) = ksz cgta_ac_cursor
   \<and> roll_one SKIPOVER nt_hasher cgta_ac_cursor = Returns (True, gtac_cursor)
   \<and> length (c_outs gtac_cursor) \<le> ksz gtac_cursor - 1"
proof -
  note a = carry_bound [of SKIPOVER nt_hasher "''ACGT''" 4 0 CANON acgt_cursor
      "acgt_cursor\<lparr>is_valid_hash := False\<rparr>" "''A''" 0 cgta_cursor]
  note e = carry_bound [of SKIPOVER nt_hasher "''ACGT''" 4 0 CANON acgt_cursor
      cgta_ac_cursor "''ACGT''" 0 gtac_cursor]
  from e visible_cgta_ac_cursor cgta_ac_cursor_rolled
  have "length (c_outs gtac_cursor) \<le> ksz gtac_cursor - 1" by blast
  moreover from a acgt_cursor_constructed visible_acgt_cursor_rolled cgta_cursor_appended
  have "c_outs acgt_cursor = [] \<and> length (c_outs cgta_cursor) \<le> ksz cgta_cursor"
    by blast
  moreover have "length (c_outs cgta_cursor) = ksz cgta_cursor"
    "length (c_outs cgta_ac_cursor) = ksz cgta_ac_cursor"
    "c_outs (cgta_cursor\<lparr>is_valid_hash := False\<rparr>) = c_outs cgta_cursor"
    by (simp_all add: cgta_cursor_def cgta_ac_cursor_def)
  moreover from a visible_acgt_cursor_rolled cgta_cursor_appended
    \<open>length (c_outs cgta_cursor) = ksz cgta_cursor\<close>
  have "is_valid_hash cgta_cursor" by blast
  ultimately show ?thesis
    using acgt_cursor_constructed visible_acgt_cursor_rolled cgta_cursor_appended
      visible_cgta_cursor cgta_cursor_rolled new_seq_on_cgta_cursor visible_cgta_ac_cursor
      cgta_ac_cursor_rolled
    by blast
qed

section \<open>Construction\<close>

text \<open>
  Claim C5. \<open>MinimizedHashType\<close> is an \<open>enum class\<close> over \<open>int\<close>, and the constructor
  rejects a \<open>minimized_h\<close> whose integer is above 2 only. The value
  \<open>(MinimizedHashType)-1\<close> is none of the three variants; with it the constructor throws
  only for \<open>k < 4\<close> or \<open>start \<ge> len\<close>, and \<open>Digester("ACGT", 4, 4, 0, (MinimizedHashType)-1)\<close>
  returns a valid cursor.
\<close>

theorem Digester_accepts_negative_variant:
  "(- 1 :: MinimizedHashType) \<notin> {CANON, FORWARD, REVERSE}
   \<and> (Digester P H s n k st (- 1) = Throws BadConstructionException \<longleftrightarrow> k < 4 \<or> n \<le> st)
   \<and> Digester SKIPOVER nt_hasher ''ACGT'' 4 4 0 (- 1)
       = Returns (acgt_cursor\<lparr>minimized_h := - 1\<rparr>)
   \<and> is_valid_hash (acgt_cursor\<lparr>minimized_h := - 1\<rparr>)"
proof -
  have "Digester SKIPOVER nt_hasher ''ACGT'' 4 4 0 (- 1)
       = Returns (acgt_cursor\<lparr>minimized_h := - 1\<rparr>)"
    by code_simp
  then show ?thesis
    by (simp add: CANON_def FORWARD_def REVERSE_def Digester_throws_iff acgt_cursor_def)
qed

section \<open>Append after a valid cursor\<close>

text \<open>
  Claim C2. \<open>Digester("ACGT", 4)\<close> then \<open>append_seq("")\<close>, under SKIPOVER. The
  constructor leaves a valid cursor at 0 with \<open>end = len\<close>, so \<open>append_seq\<close> does not
  throw. It moves \<open>CGT\<close> into the carry, changes neither the hashes nor
  \<open>is_valid_hash\<close>, and returns: the cursor is valid, \<open>get_pos()\<close> is 1, the hashes are
  those of the 4-mer at 0, and the concatenation \<open>ACGT\<close> has no 4-mer at 1.
\<close>

theorem append_seq_leaves_stale_valid_cursor:
  "Digester_string SKIPOVER nt_hasher ''ACGT'' 4 0 CANON = Returns acgt_cursor
   \<and> is_valid_hash acgt_cursor \<and> get_pos acgt_cursor = 0
   \<and> append_seq_string SKIPOVER nt_hasher [] acgt_cursor = Returns stale_cursor
   \<and> is_valid_hash stale_cursor \<and> get_pos stale_cursor = 1
   \<and> length (''ACGT'' @ []) < get_pos stale_cursor + ksz stale_cursor
   \<and> fhash stale_cursor = base_forward_hash nt_hasher (take 4 (drop 0 ''ACGT'')) 4
   \<and> rhash stale_cursor = base_reverse_hash nt_hasher (take 4 (drop 0 ''ACGT'')) 4
   \<and> chash stale_cursor = canonical nt_hasher (fhash stale_cursor) (rhash stale_cursor)"
  using acgt_cursor_constructed stale_cursor_appended
  by (simp add: stale_cursor_def acgt_cursor_def get_pos_def)

section \<open>Bytes above 0x7F\<close>

lemma not_nucleotide_0x80: "\<not> nucleotide (char_of (128 :: nat))"
  by (auto simp: nucleotide_def dest: arg_cong [where f = "of_char :: char \<Rightarrow> nat"])

lemma is_ACTG_0x80: "is_ACTG nt_hasher (char_of (128 :: nat)) = Undefined OutOfBoundsRead"
  by (simp add: is_ACTG_def is_ACTG_lookup_signed_char_high nt_hasher_def)

lemma skip_over_0x80:
  "Digester_string SKIPOVER nt_hasher (''ACG'' @ [char_of (128 :: nat)] @ ''ACGT'') 4 0 CANON
     = Undefined OutOfBoundsRead"
proof -
  define s where "s = ''ACG'' @ [char_of (128 :: nat)] @ ''ACGT''"
  have l: "length s = 8" by (simp add: s_def)
  have f: "first_non_ACTG nt_hasher s [0 ..< 4] = Undefined OutOfBoundsRead"
    by (simp add: s_def upt_conv_Cons read_at_def is_ACTG_ascii is_ACTG_0x80 nucleotide_def)
  have "Digester_string SKIPOVER nt_hasher s 4 0 CANON = Undefined OutOfBoundsRead"
    by (simp add: Digester_string_def Digester_def CANON_def init_hash_def
        init_hash_skip_over_def init_hash_skip_over_loop.simps size_dec_def l f Let_def)
  then show ?thesis by (simp only: s_def)
qed

lemma stale_cursor_appended_N:
  "append_seq_string SKIPOVER nt_hasher ''N'' stale_cursor
     = Returns (stale_cursor\<lparr>seq := ''N'', len := 1, start := 1, end_ix := 5, c_outs := [],
         is_valid_hash := False\<rparr>)"
  by (simp add: append_seq_string_def append_seq_def append_seq_skip_over_def Let_def
      append_seq_prologue_def size_dec_def tail_loop_skip_over.simps fill_loop_skip_over.simps
      read_at_def is_ACTG_ascii nucleotide_def init_hash_def init_hash_skip_over_def
      init_hash_skip_over_loop.simps append_seq_epilogue_def stale_cursor_def acgt_cursor_def)

text \<open>
  Claim C4. (1) \<open>Digester\<close> under SKIPOVER on the eight bytes \<open>41 43 47 80 41 43 47 54\<close>,
  with \<open>k = 4\<close>, where plain \<open>char\<close> is signed: \<open>init_hash_skip_over\<close> calls \<open>is_ACTG\<close> on
  the byte 0x80, which is no nucleotide, and the lookup reads outside the table; what
  the constructor does then is undefined. (2) The cursor after \<open>Digester("ACGT", 4)\<close>
  and \<open>append_seq("")\<close> is valid and reports the position 1; after \<open>append_seq("N")\<close> the
  four bytes at 1 of the concatenation are \<open>CGTN\<close>.
\<close>

theorem skip_over_reads_outside_table:
  "\<not> nucleotide (char_of (128 :: nat))
   \<and> Digester_string SKIPOVER nt_hasher (''ACG'' @ [char_of (128 :: nat)] @ ''ACGT'') 4 0 CANON
       = Undefined OutOfBoundsRead
   \<and> append_seq_string SKIPOVER nt_hasher [] acgt_cursor = Returns stale_cursor
   \<and> is_valid_hash stale_cursor \<and> get_pos stale_cursor = 1
   \<and> append_seq_string SKIPOVER nt_hasher ''N'' stale_cursor
       = Returns (stale_cursor\<lparr>seq := ''N'', len := 1, start := 1, end_ix := 5, c_outs := [],
           is_valid_hash := False\<rparr>)
   \<and> take 4 (drop 1 (''ACGT'' @ [] @ ''N'')) = ''CGTN''
   \<and> \<not> list_all nucleotide ''CGTN''"
proof -
  have "is_valid_hash stale_cursor \<and> get_pos stale_cursor = 1"
    by (simp add: stale_cursor_def acgt_cursor_def get_pos_def)
  moreover have "\<not> list_all nucleotide ''CGTN''" by (simp add: nucleotide_def)
  moreover have "take 4 (drop 1 (''ACGT'' @ [] @ ''N'')) = ''CGTN''" by simp
  ultimately show ?thesis
    using not_nucleotide_0x80 skip_over_0x80 stale_cursor_appended stale_cursor_appended_N
    by blast
qed

lemma write_over_0x80:
  "digest WRITEOVER nt_hasher (''ACGT'' @ [char_of (128 :: nat)]) 4 0 CANON
     = Undefined OutOfBoundsRead"
proof -
  define s where "s = ''ACGT'' @ [char_of (128 :: nat)]"
  have l: "length s = 5" by (simp add: s_def)
  have b: "build_init_str nt_hasher s [0 ..< 4] = Returns ''ACGT''"
    by (simp add: s_def upt_conv_Cons read_at_def write_over_def is_ACTG_ascii nucleotide_def)
  have c: "Digester_string WRITEOVER nt_hasher s 4 0 CANON
      = Returns (acgt_cursor\<lparr>seq := s, len := 5\<rparr>)"
    by (simp add: Digester_string_def Digester_def CANON_def init_hash_def
        init_hash_write_over_def size_dec_def l b Let_def set_base_hashes_eq nucleotide_def
        acgt_cursor_def)
  have "read_at s 4 = Returns (char_of (128 :: nat))"
    by (simp add: s_def read_at_def)
  then have "roll_one WRITEOVER nt_hasher (acgt_cursor\<lparr>seq := s, len := 5\<rparr>)
      = Undefined OutOfBoundsRead"
    by (simp add: roll_one_def roll_one_write_over_def write_over_def is_ACTG_0x80
        acgt_cursor_def)
  then have "read_all WRITEOVER nt_hasher (acgt_cursor\<lparr>seq := s, len := 5\<rparr>)
      = Undefined OutOfBoundsRead"
    by (simp add: read_all_def roll_all.simps)
  with c have "digest WRITEOVER nt_hasher s 4 0 CANON = Undefined OutOfBoundsRead"
    by (simp add: digest_def)
  then show ?thesis by (simp only: s_def)
qed

lemma skip_over_ACGTA:
  "digest SKIPOVER nt_hasher ''ACGTA'' 4 0 CANON
     = Returns [emission acgt_cursor,
         (1, base_forward_hash nt_hasher ''CGTA'' 4, base_reverse_hash nt_hasher ''CGTA'' 4,
          canonical nt_hasher (base_forward_hash nt_hasher ''CGTA'' 4)
            (base_reverse_hash nt_hasher ''CGTA'' 4))]"
  by code_simp

text \<open>
  Claim C3. The WRITEOVER cursor on the five bytes \<open>41 43 47 54 80\<close>, with \<open>k = 4\<close>, where
  plain \<open>char\<close> is signed: the constructor stands on \<open>ACGT\<close>, and \<open>roll_one\<close> calls
  \<open>is_ACTG\<close> on the byte 0x80: the lookup reads outside the table, and what the cursor
  does then is undefined. The SKIPOVER cursor on \<open>ACGTA\<close>, the same bytes with \<open>A\<close> for the
  byte that is no nucleotide, reads the 4-mers at 0 and 1.
\<close>

theorem write_over_reads_outside_table:
  "map (\<lambda>c. if nucleotide c then c else CHR ''A'') (''ACGT'' @ [char_of (128 :: nat)]) = ''ACGTA''
   \<and> digest WRITEOVER nt_hasher (''ACGT'' @ [char_of (128 :: nat)]) 4 0 CANON
       = Undefined OutOfBoundsRead
   \<and> digest SKIPOVER nt_hasher ''ACGTA'' 4 0 CANON
       = Returns [emission acgt_cursor,
           (1, base_forward_hash nt_hasher ''CGTA'' 4, base_reverse_hash nt_hasher ''CGTA'' 4,
            canonical nt_hasher (base_forward_hash nt_hasher ''CGTA'' 4)
              (base_reverse_hash nt_hasher ''CGTA'' 4))]"
proof -
  have "map (\<lambda>c. if nucleotide c then c else CHR ''A'') ''ACGT'' = ''ACGT''"
    by (simp add: nucleotide_def)
  with not_nucleotide_0x80
  have "map (\<lambda>c. if nucleotide c then c else CHR ''A'') (''ACGT'' @ [char_of (128 :: nat)])
      = ''ACGTA''"
    by simp
  with write_over_0x80 skip_over_ACGTA show ?thesis by blast
qed

section \<open>Append after an empty slice\<close>

lemma ac_cursor_constructed:
  "Digester_string SKIPOVER nt_hasher ''AC'' 4 0 CANON = Returns ac_cursor"
  by code_simp

lemma ac_cursor_read: "read_all SKIPOVER nt_hasher ac_cursor = Returns ([], ac_cursor)"
  by code_simp

lemma ac_empty_cursor_appended:
  "append_seq_string SKIPOVER nt_hasher [] ac_cursor = Returns ac_empty_cursor"
  by code_simp

lemma ac_empty_cursor_read:
  "read_all SKIPOVER nt_hasher ac_empty_cursor = Returns ([], ac_empty_cursor)"
  by code_simp

lemma ac_empty_cursor_append:
  "append_seq_string SKIPOVER nt_hasher ''GTAC'' ac_empty_cursor = Undefined OutOfBoundsRead"
  by (simp add: append_seq_string_def append_seq_def append_seq_skip_over_def Let_def
      append_seq_prologue_def size_dec_def tail_loop_skip_over.simps read_at_def
      ac_empty_cursor_def ac_cursor_def)

lemma digest_split_empty_middle:
  "digest_split SKIPOVER nt_hasher ''AC'' [[], ''GTAC''] 4 0 CANON = Undefined OutOfBoundsRead"
  by (simp add: digest_split_def ac_cursor_constructed ac_cursor_read ac_empty_cursor_appended
      ac_empty_cursor_read ac_empty_cursor_append)

lemma digest_ACGTAC:
  "digest SKIPOVER nt_hasher ''ACGTAC'' 4 0 CANON
     = Returns [emission acgt_cursor, emission cgta_cursor, emission gtac_cursor]"
  by code_simp

lemma digest_split_AC_GTAC:
  "digest_split SKIPOVER nt_hasher ''AC'' [''GTAC''] 4 0 CANON
     = Returns [emission acgt_cursor, emission cgta_cursor, emission gtac_cursor]"
  by code_simp

text \<open>
  Claim C1. The sequence \<open>ACGTAC\<close>, with \<open>k = 4\<close> under SKIPOVER. Digested in one piece, and
  in the two pieces \<open>AC\<close> and \<open>GTAC\<close>, it gives the 4-mers at 0, 1 and 2. In the three
  pieces \<open>AC\<close>, the empty sequence and \<open>GTAC\<close>: the first \<open>append_seq\<close> leaves an empty
  slice and the carry \<open>AC\<close>; the second computes \<open>ind = this->len - 1\<close>, which wraps to
  \<open>2^64 - 1\<close>, and its first loop reads \<open>this->seq[ind]\<close>, outside the slice.
\<close>

theorem append_after_empty_slice_reads_outside:
  "''AC'' @ [] @ ''GTAC'' = ''ACGTAC''
   \<and> digest SKIPOVER nt_hasher ''ACGTAC'' 4 0 CANON
       = Returns [emission acgt_cursor, emission cgta_cursor, emission gtac_cursor]
   \<and> digest_split SKIPOVER nt_hasher ''AC'' [''GTAC''] 4 0 CANON
       = Returns [emission acgt_cursor, emission cgta_cursor, emission gtac_cursor]
   \<and> Digester_string SKIPOVER nt_hasher ''AC'' 4 0 CANON = Returns ac_cursor
   \<and> read_all SKIPOVER nt_hasher ac_cursor = Returns ([], ac_cursor)
   \<and> append_seq_string SKIPOVER nt_hasher [] ac_cursor = Returns ac_empty_cursor
   \<and> read_all SKIPOVER nt_hasher ac_empty_cursor = Returns ([], ac_empty_cursor)
   \<and> append_seq_string SKIPOVER nt_hasher ''GTAC'' ac_empty_cursor = Undefined OutOfBoundsRead
   \<and> digest_split SKIPOVER nt_hasher ''AC'' [[], ''GTAC''] 4 0 CANON = Undefined OutOfBoundsRead"
  using digest_ACGTAC digest_split_AC_GTAC ac_cursor_constructed ac_cursor_read
    ac_empty_cursor_appended ac_empty_cursor_read ac_empty_cursor_append
    digest_split_empty_middle
  by simp

end
